theory Spec2Isabelle
  imports Complex_Main "HOL-Library.Word"
begin

section \<open>The pedigree graph: objects and store\<close>

text \<open>
  The JavaScript objects of the pedigree graph refer to each other (a person holds its
  partnerships, a partnership holds its partners and children, a child points back to its
  parent partnership), so the model is an explicit store: object references are natural
  numbers, and the store maps a reference to the fields of the object.

  Every reference to a person names an object, so \<open>persons\<close> is a total function.
  A \<open>Partnership\<close> object whose constructor took the no-op path has no fields at all;
  it is a reference that the store maps to \<open>None\<close>. Reading a field of such an object
  and indexing the result is the \<open>TypeError\<close> of JavaScript.

  Genders and node types are the strings of the source (\<open>"M"\<close>, \<open>"F"\<close>, \<open>"U"\<close>;
  \<open>"pn"\<close>, \<open>"ph"\<close>). The value of \<open>getType()\<close> of a person comes from the
  subclasses \<open>Person\<close> and \<open>PlaceHolder\<close>; it is the field \<open>p_type\<close>.
\<close>

datatype error = TypeError

type_synonym pref = nat
type_synonym sref = nat

record person =
  p_id :: nat
  p_type :: string
  p_gender :: string
  p_partnerships :: "sref list"
  p_parentPartnership :: "sref option"
  p_parentConnection :: bool
  p_x :: rat
  p_y :: rat

record partnership =
  s_type :: string
  s_partners :: "pref \<times> pref"
  s_children :: "pref list \<times> pref list"
  s_graphics :: "(rat \<times> rat) option"
  s_id :: "nat option"

text \<open>
  The editor is an external collaborator. Its part of the state is the counter behind
  \<open>generateID\<close> and the registries that \<open>addNode\<close>, \<open>removeNode\<close> and
  \<open>removePartnership\<close> maintain. \<open>fired\<close> records the
  \<open>pedigree:child:added\<close> notifications (child, source partnership).
\<close>

record graph =
  persons :: "pref \<Rightarrow> person"
  pships :: "sref \<Rightarrow> partnership option"
  nextPerson :: pref
  nextPship :: sref
  nextID :: nat
  nodes :: "pref list"
  edges :: "sref list"
  fired :: "(pref \<times> sref) list"

definition bindE :: "error + 'a \<Rightarrow> ('a \<Rightarrow> error + 'b) \<Rightarrow> error + 'b" where
  "bindE m f = (case m of Inl e \<Rightarrow> Inl e | Inr x \<Rightarrow> f x)"

text \<open>
  Recursive traversals take fuel: \<open>None\<close> is "the fuel ran out", \<open>Some (Inl e)\<close> a
  raised error, \<open>Some (Inr v)\<close> a normal return.
\<close>

definition bindR :: "(error + 'a) option \<Rightarrow> ('a \<Rightarrow> (error + 'b) option) \<Rightarrow> (error + 'b) option" where
  "bindR m f = (case m of None \<Rightarrow> None | Some (Inl e) \<Rightarrow> Some (Inl e) | Some (Inr x) \<Rightarrow> f x)"

definition liftE :: "error + 'a \<Rightarrow> (error + 'a) option" where
  "liftE m = Some m"

subsection \<open>The editor (external collaborator)\<close>

text \<open>
  Modelled from the spec: \<open>editor.generateID\<close>, \<open>editor.addNode\<close>,
  \<open>editor.removeNode\<close> and \<open>editor.removePartnership\<close> are not among the sources.
  The spec gives \<open>generateID() -> unique identifier\<close>,
  \<open>addNode(x, y, gender, isPlaceholder) -> new Person/Placeholder, already registered\<close>, and
  deregistration from the live node/edge registry for the two removals.
\<close>

definition generateID :: "graph \<Rightarrow> graph \<times> nat" where
  "generateID g = (g\<lparr>nextID := Suc (nextID g)\<rparr>, nextID g)"

definition parseGender :: "string \<Rightarrow> string" where
  "parseGender gender = (if gender = ''M'' \<or> gender = ''F'' then gender else ''U'')"

definition addNode :: "graph \<Rightarrow> rat \<Rightarrow> rat \<Rightarrow> string \<Rightarrow> bool \<Rightarrow> graph \<times> pref" where
  "addNode g x y gender isPlaceHolder =
     (let this = nextPerson g;
          (g1, i) = generateID g;
          node = \<lparr>p_id = i, p_type = (if isPlaceHolder then ''ph'' else ''pn''),
                  p_gender = parseGender gender, p_partnerships = [],
                  p_parentPartnership = None, p_parentConnection = False,
                  p_x = x, p_y = y\<rparr>
      in (g1\<lparr>persons := (persons g1)(this := node), nextPerson := Suc this,
              nodes := nodes g1 @ [this]\<rparr>, this))"

definition removeNode :: "graph \<Rightarrow> pref \<Rightarrow> graph" where
  "removeNode g node = g\<lparr>nodes := filter (\<lambda>n. n \<noteq> node) (nodes g)\<rparr>"

definition removePartnership_editor :: "graph \<Rightarrow> sref \<Rightarrow> graph" where
  "removePartnership_editor g partnership = g\<lparr>edges := filter (\<lambda>e. e \<noteq> partnership) (edges g)\<rparr>"

subsection \<open>AbstractPerson: accessors\<close>

definition getID :: "graph \<Rightarrow> pref \<Rightarrow> nat" where
  "getID g this = p_id (persons g this)"

definition getType :: "graph \<Rightarrow> pref \<Rightarrow> string" where
  "getType g this = p_type (persons g this)"

definition getGender :: "graph \<Rightarrow> pref \<Rightarrow> string" where
  "getGender g this = p_gender (persons g this)"

definition getX :: "graph \<Rightarrow> pref \<Rightarrow> rat" where
  "getX g this = p_x (persons g this)"

definition getY :: "graph \<Rightarrow> pref \<Rightarrow> rat" where
  "getY g this = p_y (persons g this)"

definition getOppositeGender :: "graph \<Rightarrow> pref \<Rightarrow> string" where
  "getOppositeGender g this =
     (if getGender g this = ''U'' then ''U''
      else if getGender g this = ''M'' then ''F''
      else ''M'')"

definition getPartnerships :: "graph \<Rightarrow> pref \<Rightarrow> sref list" where
  "getPartnerships g this = p_partnerships (persons g this)"

definition getParentPartnership :: "graph \<Rightarrow> pref \<Rightarrow> sref option" where
  "getParentPartnership g this = p_parentPartnership (persons g this)"

definition setParentPartnership :: "graph \<Rightarrow> pref \<Rightarrow> sref option \<Rightarrow> graph" where
  "setParentPartnership g this partnership =
     g\<lparr>persons := (persons g)(this := (persons g this)\<lparr>p_parentPartnership := partnership\<rparr>)\<rparr>"

subsection \<open>Partnership: accessors\<close>

text \<open>
  \<open>getPartners()\<close> is always indexed by its callers (\<open>getPartners()[0]\<close>), which
  raises on an object without \<open>_partners\<close>; the model raises in \<open>getPartners\<close>.
\<close>

definition Partnership_getPartners :: "graph \<Rightarrow> sref \<Rightarrow> error + (pref \<times> pref)" where
  "Partnership_getPartners g this =
     (case pships g this of None \<Rightarrow> Inl TypeError | Some s \<Rightarrow> Inr (s_partners s))"

definition getPartnerOf :: "graph \<Rightarrow> sref \<Rightarrow> pref \<Rightarrow> error + pref option" where
  "getPartnerOf g this someNode =
     bindE (Partnership_getPartners g this) (\<lambda>ps.
       if someNode = fst ps then Inr (Some (snd ps))
       else if someNode = snd ps then Inr (Some (fst ps))
       else Inr None)"

text \<open>
  \<open>getChildren(type)\<close>: \<open>Some ''pn''\<close> and \<open>Some ''ph''\<close> select a bucket (the array
  itself), anything else is \<open>_children.flatten()\<close>, the real children followed by the
  placeholders.
\<close>

definition Partnership_getChildren :: "graph \<Rightarrow> sref \<Rightarrow> string option \<Rightarrow> error + pref list" where
  "Partnership_getChildren g this type =
     (case pships g this of
        None \<Rightarrow> Inl TypeError
      | Some s \<Rightarrow>
          if type = Some ''pn'' then Inr (fst (s_children s))
          else if type = Some ''ph'' then Inr (snd (s_children s))
          else Inr (fst (s_children s) @ snd (s_children s)))"

definition hasChild :: "graph \<Rightarrow> sref \<Rightarrow> pref \<Rightarrow> error + bool" where
  "hasChild g this someNode =
     bindE (Partnership_getChildren g this None) (\<lambda>cs. Inr (someNode \<in> set cs))"

subsection \<open>AbstractPerson: partners and partnerships\<close>

fun getPartners_each :: "graph \<Rightarrow> pref \<Rightarrow> sref list \<Rightarrow> pref list \<Rightarrow> error + pref list" where
  "getPartners_each g me [] partners = Inr partners"
| "getPartners_each g me (partnership # rest) partners =
     (case getPartnerOf g partnership me of
        Inl e \<Rightarrow> Inl e
      | Inr None \<Rightarrow> getPartners_each g me rest partners
      | Inr (Some partner) \<Rightarrow> getPartners_each g me rest (partners @ [partner]))"

definition getPartners :: "graph \<Rightarrow> pref \<Rightarrow> error + pref list" where
  "getPartners g this = getPartners_each g this (getPartnerships g this) []"

fun getPartnership_for :: "graph \<Rightarrow> pref \<Rightarrow> pref \<Rightarrow> sref list \<Rightarrow> error + sref option" where
  "getPartnership_for g this partner [] = Inr None"
| "getPartnership_for g this partner (p # rest) =
     (case getPartnerOf g p this of
        Inl e \<Rightarrow> Inl e
      | Inr q \<Rightarrow> if q = Some partner then Inr (Some p) else getPartnership_for g this partner rest)"

definition getPartnership :: "graph \<Rightarrow> pref \<Rightarrow> pref \<Rightarrow> error + sref option" where
  "getPartnership g this partner = getPartnership_for g this partner (getPartnerships g this)"

definition addPartnership :: "graph \<Rightarrow> pref \<Rightarrow> sref \<Rightarrow> error + graph" where
  "addPartnership g this partnership =
     bindE (getPartners g this) (\<lambda>partners.
     bindE (getPartnerOf g partnership this) (\<lambda>q.
       if (case q of None \<Rightarrow> True | Some p \<Rightarrow> p \<notin> set partners)
       then Inr (g\<lparr>persons := (persons g)(this :=
                    (persons g this)\<lparr>p_partnerships := p_partnerships (persons g this) @ [partnership]\<rparr>)\<rparr>)
       else Inr g))"

definition removePartnership :: "graph \<Rightarrow> pref \<Rightarrow> sref \<Rightarrow> graph" where
  "removePartnership g this partnership =
     g\<lparr>persons := (persons g)(this :=
        (persons g this)\<lparr>p_partnerships := filter (\<lambda>p. p \<noteq> partnership) (p_partnerships (persons g this))\<rparr>)\<rparr>"

subsection \<open>Partnership: construction\<close>

text \<open>
  \<open>AbstractNode.initialize(x, y, id)\<close> on a partnership: the graphics are generated at
  \<open>(x, y)\<close> and the id is the supplied one when it is truthy (\<open>0\<close> is not), a
  generated one otherwise.
\<close>

definition AbstractNode_initialize :: "graph \<Rightarrow> sref \<Rightarrow> rat \<Rightarrow> rat \<Rightarrow> nat option \<Rightarrow> error + graph" where
  "AbstractNode_initialize g this x y ident =
     (case pships g this of
        None \<Rightarrow> Inl TypeError
      | Some s \<Rightarrow>
          (case ident of
             Some i \<Rightarrow>
               if i \<noteq> 0
               then Inr (g\<lparr>pships := (pships g)(this := Some (s\<lparr>s_graphics := Some (x, y), s_id := Some i\<rparr>))\<rparr>)
               else (let (g1, j) = generateID g
                     in Inr (g1\<lparr>pships := (pships g1)(this := Some (s\<lparr>s_graphics := Some (x, y), s_id := Some j\<rparr>))\<rparr>))
           | None \<Rightarrow>
               (let (g1, j) = generateID g
                in Inr (g1\<lparr>pships := (pships g1)(this := Some (s\<lparr>s_graphics := Some (x, y), s_id := Some j\<rparr>))\<rparr>))))"

text \<open>
  \<open>new Partnership(x, y, partner1, partner2, id)\<close>. The \<open>new\<close> allocates the object
  (the next reference); \<open>initialize\<close> fills it only behind its guard. The result is
  the new store and the reference to the object, filled or not.
\<close>

definition Partnership_initialize ::
  "graph \<Rightarrow> rat \<Rightarrow> rat \<Rightarrow> pref \<Rightarrow> pref \<Rightarrow> nat option \<Rightarrow> error + (graph \<times> sref)" where
  "Partnership_initialize g x y partner1 partner2 ident =
     (let this = nextPship g;
          g0 = g\<lparr>pships := (pships g)(this := None), nextPship := Suc this\<rparr>
      in if getType g0 partner1 \<noteq> ''ph'' \<or> getType g0 partner2 \<noteq> ''ph''
         then
           (let g1 = g0\<lparr>pships := (pships g0)(this := Some
                        \<lparr>s_type = ''partnership'', s_partners = (partner1, partner2),
                         s_children = ([], []), s_graphics = None, s_id = None\<rparr>)\<rparr>
            in bindE (addPartnership g1 partner1 this) (\<lambda>g2.
               bindE (addPartnership g2 partner2 this) (\<lambda>g3.
               bindE (AbstractNode_initialize g3 this x y ident) (\<lambda>g4.
                 Inr (g4, this)))))
         else Inr (g0, this))"

subsection \<open>AbstractPerson: parents, children, descendants\<close>

definition getParents :: "graph \<Rightarrow> pref \<Rightarrow> error + (pref \<times> pref) option" where
  "getParents g this =
     (case getParentPartnership g this of
        None \<Rightarrow> Inr None
      | Some pp \<Rightarrow> bindE (Partnership_getPartners g pp) (\<lambda>ps. Inr (Some (fst ps, snd ps))))"

fun getChildren_each :: "graph \<Rightarrow> sref list \<Rightarrow> pref list \<Rightarrow> error + pref list" where
  "getChildren_each g [] children = Inr children"
| "getChildren_each g (partnership # rest) children =
     bindE (Partnership_getChildren g partnership None) (\<lambda>cs.
       getChildren_each g rest (children @ cs))"

definition getChildren :: "graph \<Rightarrow> pref \<Rightarrow> error + pref list" where
  "getChildren g this = getChildren_each g (getPartnerships g this) []"

definition isParentOf :: "graph \<Rightarrow> pref \<Rightarrow> pref \<Rightarrow> error + bool" where
  "isParentOf g this otherNode = bindE (getChildren g this) (\<lambda>cs. Inr (otherNode \<in> set cs))"

text \<open>
  \<open>isDescendantOf\<close> recurses into the children of \<open>otherNode\<close>; nothing in the code
  bounds the recursion, so the model takes fuel. The \<open>while\<close> loop over
  \<open>children[i]\<close> is the recursion over the rest of the list.
\<close>

fun isDescendantOf :: "nat \<Rightarrow> graph \<Rightarrow> pref \<Rightarrow> pref \<Rightarrow> (error + bool) option"
and isDescendantOf_while :: "nat \<Rightarrow> graph \<Rightarrow> pref \<Rightarrow> pref list \<Rightarrow> bool \<Rightarrow> (error + bool) option"
where
  "isDescendantOf 0 g this otherNode = None"
| "isDescendantOf (Suc fuel) g this otherNode =
     bindR (liftE (isParentOf g otherNode this)) (\<lambda>parent.
       if parent then Some (Inr True)
       else bindR (liftE (getChildren g otherNode)) (\<lambda>children.
              isDescendantOf_while fuel g this children False))"
| "isDescendantOf_while fuel g this [] found = Some (Inr found)"
| "isDescendantOf_while fuel g this (child # rest) found =
     (if \<not> found
      then bindR (isDescendantOf fuel g this child) (\<lambda>found'.
             isDescendantOf_while fuel g this rest found')
      else Some (Inr found))"

definition isAncestorOf :: "nat \<Rightarrow> graph \<Rightarrow> pref \<Rightarrow> pref \<Rightarrow> (error + bool) option" where
  "isAncestorOf fuel g this otherNode = isDescendantOf fuel g otherNode this"

subsection \<open>AbstractPerson: isRelatedTo\<close>

text \<open>
  The local function \<open>getPersonNeighbors\<close> evaluates
  \<open>node.getParentPartnership() && neighbors.push(node.getParentPartnership().getPartner1(),
  node.getParentPartnership().getPartner2())\<close>. The class \<open>Partnership\<close> defines
  neither \<open>getPartner1\<close> nor \<open>getPartner2\<close> (it has \<open>getPartners\<close> only), and
  neither does \<open>AbstractNode\<close>: for a node with a parent partnership the call of the
  undefined method raises, before anything is pushed.
\<close>

definition getPersonNeighbors :: "graph \<Rightarrow> pref \<Rightarrow> error + pref list" where
  "getPersonNeighbors g node =
     bindE (case getParentPartnership g node of
              None \<Rightarrow> Inr []
            | Some pp \<Rightarrow> Inl TypeError) (\<lambda>neighbors.
     bindE (getChildren g node) (\<lambda>cs.
     bindE (getPartners g node) (\<lambda>ps.
       Inr ((neighbors @ cs) @ ps))))"

datatype 'a flow = Return bool | Continue 'a

text \<open>
  The inner loop is \<open>for(var k = 0; i<neighbors.length; k++)\<close>: its condition tests
  \<open>i\<close>, not \<open>k\<close>. When \<open>k\<close> reaches the length, \<open>neighbors[k]\<close> is
  \<open>undefined\<close>, which is not \<open>otherNode\<close>, and \<open>undefined.getID()\<close> raises.
\<close>

function isRelatedTo_for_k ::
  "graph \<Rightarrow> pref \<Rightarrow> nat \<Rightarrow> pref list \<Rightarrow> nat \<Rightarrow> pref list \<Rightarrow> (nat \<Rightarrow> bool)
     \<Rightarrow> error + (pref list \<times> (nat \<Rightarrow> bool)) flow" where
  "isRelatedTo_for_k g otherNode i neighbors k next visited =
     (if i < length neighbors
      then (if k < length neighbors
            then (if neighbors ! k = otherNode then Inr (Return True)
                  else if \<not> visited (getID g (neighbors ! k))
                  then isRelatedTo_for_k g otherNode i neighbors (Suc k) (next @ [neighbors ! k])
                         (visited(getID g (neighbors ! k) := True))
                  else isRelatedTo_for_k g otherNode i neighbors (Suc k) next visited)
            else Inl TypeError)
      else Inr (Continue (next, visited)))"
  by pat_completeness auto
termination
  by (relation "measure (\<lambda>(g, otherNode, i, neighbors, k, next, visited). length neighbors - k)") auto

declare isRelatedTo_for_k.simps [simp del]

function isRelatedTo_for_i ::
  "graph \<Rightarrow> pref \<Rightarrow> pref list \<Rightarrow> nat \<Rightarrow> pref list \<Rightarrow> (nat \<Rightarrow> bool)
     \<Rightarrow> error + (pref list \<times> (nat \<Rightarrow> bool)) flow" where
  "isRelatedTo_for_i g otherNode front i next visited =
     (if i < length front
      then (case getPersonNeighbors g (front ! i) of
              Inl e \<Rightarrow> Inl e
            | Inr neighbors \<Rightarrow>
                (case isRelatedTo_for_k g otherNode i neighbors 0 next visited of
                   Inl e \<Rightarrow> Inl e
                 | Inr (Return b) \<Rightarrow> Inr (Return b)
                 | Inr (Continue (next', visited')) \<Rightarrow>
                     isRelatedTo_for_i g otherNode front (Suc i) next' visited'))
      else Inr (Continue (next, visited)))"
  by pat_completeness auto
termination
  by (relation "measure (\<lambda>(g, otherNode, front, i, next, visited). length front - i)") auto

declare isRelatedTo_for_i.simps [simp del]

text \<open>
  The \<open>while\<close> loop ends each pass with \<open>front.clear(); front = next; next.clear();\<close>.
  After the assignment \<open>front\<close> and \<open>next\<close> name the same array, which
  \<open>next.clear()\<close> empties: the next pass starts with both empty.
\<close>

function isRelatedTo_while ::
  "graph \<Rightarrow> pref \<Rightarrow> pref list \<Rightarrow> pref list \<Rightarrow> (nat \<Rightarrow> bool) \<Rightarrow> error + bool" where
  "isRelatedTo_while g otherNode front next visited =
     (if length front > 0
      then (case isRelatedTo_for_i g otherNode front 0 next visited of
              Inl e \<Rightarrow> Inl e
            | Inr (Return b) \<Rightarrow> Inr b
            | Inr (Continue (next', visited')) \<Rightarrow> isRelatedTo_while g otherNode [] [] visited')
      else Inr False)"
  by pat_completeness auto
termination
  by (relation "measure (\<lambda>(g, otherNode, front, next, visited). length front)") auto

declare isRelatedTo_while.simps [simp del]

definition isRelatedTo :: "graph \<Rightarrow> pref \<Rightarrow> pref \<Rightarrow> error + bool" where
  "isRelatedTo g this otherNode =
     isRelatedTo_while g otherNode [this] [] ((\<lambda>_. False)(getID g this := True))"

subsection \<open>AbstractPerson: partner distance, canPartnerWith, setGender, addPartner\<close>

text \<open>
  \<open>getStepsToNode\<close> is a depth-first search over the partners. The \<open>visited\<close> array
  is shared by all the calls (each call pushes onto it), so the model threads it through.
  \<open>throw $break\<close> leaves the \<open>each\<close> at the first partner that reaches
  \<open>otherNode\<close>. An omitted \<open>visitedNodes\<close> is the empty list.
\<close>

fun getStepsToNode ::
  "nat \<Rightarrow> graph \<Rightarrow> pref \<Rightarrow> pref \<Rightarrow> pref list \<Rightarrow> (error + (nat option \<times> pref list)) option"
and getStepsToNode_each ::
  "nat \<Rightarrow> graph \<Rightarrow> pref \<Rightarrow> pref list \<Rightarrow> nat option \<Rightarrow> pref list \<Rightarrow> (error + (nat option \<times> pref list)) option"
where
  "getStepsToNode 0 g this otherNode visitedNodes = None"
| "getStepsToNode (Suc fuel) g this otherNode visitedNodes =
     (let visited = visitedNodes @ [this]
      in if this = otherNode then Some (Inr (Some 0, visited))
         else bindR (liftE (getPartners g this)) (\<lambda>partners.
                getStepsToNode_each fuel g otherNode partners None visited))"
| "getStepsToNode_each fuel g otherNode [] numSteps visited = Some (Inr (numSteps, visited))"
| "getStepsToNode_each fuel g otherNode (partner # rest) numSteps visited =
     (if partner \<notin> set visited
      then bindR (getStepsToNode fuel g partner otherNode visited) (\<lambda>r.
             case fst r of
               Some k \<Rightarrow> Some (Inr (Some (1 + k), snd r))
             | None \<Rightarrow> getStepsToNode_each fuel g otherNode rest None (snd r))
      else getStepsToNode_each fuel g otherNode rest numSteps visited)"

definition canPartnerWith :: "nat \<Rightarrow> graph \<Rightarrow> pref \<Rightarrow> pref \<Rightarrow> (error + bool) option" where
  "canPartnerWith fuel g this otherNode =
     (let oppositeGender = (getOppositeGender g this = getGender g otherNode
                            \<or> getGender g this = ''U'' \<or> getGender g otherNode = ''U'')
      in bindR (getStepsToNode fuel g this otherNode []) (\<lambda>r.
           let numSteps = fst r;
               oddStepsAway = (case numSteps of None \<Rightarrow> True | Some k \<Rightarrow> k mod 2 = 1)
           in Some (Inr (oppositeGender \<and> oddStepsAway))))"

definition set_gender :: "graph \<Rightarrow> pref \<Rightarrow> string \<Rightarrow> graph" where
  "set_gender g this gender =
     g\<lparr>persons := (persons g)(this := (persons g this)\<lparr>p_gender := gender\<rparr>)\<rparr>"

text \<open>
  \<open>setGender(gender, forceDraw, visitedNodes)\<close>; \<open>forceDraw\<close> only redraws and is left
  out. The result is the store and the \<open>visited\<close> array.
\<close>

fun setGender ::
  "nat \<Rightarrow> graph \<Rightarrow> pref \<Rightarrow> string \<Rightarrow> pref list \<Rightarrow> (error + (graph \<times> pref list)) option"
and setGender_each ::
  "nat \<Rightarrow> graph \<Rightarrow> pref \<Rightarrow> pref list \<Rightarrow> pref list \<Rightarrow> (error + (graph \<times> pref list)) option"
where
  "setGender 0 g this gender visitedNodes = None"
| "setGender (Suc fuel) g this gender visitedNodes =
     (let visited = visitedNodes @ [this]
      in bindR (liftE (getPartners g this)) (\<lambda>partners.
           if length partners = 0
           then Some (Inr (set_gender g this (parseGender gender), visited))
           else if getGender g this = ''U''
           then (let g1 = set_gender g this (parseGender gender)
                 in bindR (liftE (getPartners g1 this)) (\<lambda>partners1.
                      setGender_each fuel g1 this partners1 visited))
           else Some (Inr (g, visited))))"
| "setGender_each fuel g me [] visited = Some (Inr (g, visited))"
| "setGender_each fuel g me (partner # rest) visited =
     (if partner \<notin> set visited
      then bindR (setGender fuel g partner (getOppositeGender g me) visited) (\<lambda>r.
             setGender_each fuel (fst r) me rest (snd r))
      else setGender_each fuel g me rest visited)"

text \<open>
  \<open>addPartner\<close> returns the store and the value returned: \<open>None\<close> is
  \<open>null\<close>/\<open>undefined\<close>, \<open>Some r\<close> a reference to a \<open>Partnership\<close> object.
\<close>

definition addPartner :: "nat \<Rightarrow> graph \<Rightarrow> pref \<Rightarrow> pref \<Rightarrow> (error + (graph \<times> sref option)) option" where
  "addPartner fuel g this partner =
     bindR (liftE (getPartners g this)) (\<lambda>partners.
       if partner \<in> set partners
       then bindR (liftE (getPartnership g this partner)) (\<lambda>r. Some (Inr (g, r)))
       else bindR (canPartnerWith fuel g this partner) (\<lambda>ok.
         if ok
         then (let distanceX = \<bar>getX g partner - getX g this\<bar> / 2;
                   distanceY = \<bar>getY g partner - getY g this\<bar> / 2;
                   x = (if getX g partner > getX g this then distanceX + getX g this
                        else distanceX + getX g partner);
                   y = (if getY g partner > getY g this then distanceY + getY g this
                        else distanceY + getY g partner)
               in bindR (liftE (Partnership_initialize g x y this partner None)) (\<lambda>(g1, partnership).
                    if getGender g1 this = ''U'' \<and> getGender g1 partner \<noteq> ''U''
                    then bindR (setGender fuel g1 this (getOppositeGender g1 partner) []) (\<lambda>r.
                           Some (Inr (fst r, Some partnership)))
                    else if getGender g1 this \<noteq> ''U'' \<and> getGender g1 partner = ''U''
                    then bindR (setGender fuel g1 partner (getOppositeGender g1 this) []) (\<lambda>r.
                           Some (Inr (fst r, Some partnership)))
                    else Some (Inr (g1, Some partnership))))
         else Some (Inr (g, None))))"

subsection \<open>Removal of persons and partnerships\<close>

text \<open>
  \<open>removeChild\<close> calls \<open>someNode.parentConnection.remove()\<close>, which raises when the
  node has no parent connection; \<open>p_parentConnection\<close> records whether it has one.
\<close>

definition removeChild :: "graph \<Rightarrow> sref \<Rightarrow> pref \<Rightarrow> error + graph" where
  "removeChild g this someNode =
     (let g1 = setParentPartnership g someNode None
      in case pships g1 this of
           None \<Rightarrow> Inl TypeError
         | Some s \<Rightarrow>
             (let s' = (if getType g1 someNode = ''ph''
                        then s\<lparr>s_children := (fst (s_children s),
                                 filter (\<lambda>c. c \<noteq> someNode) (snd (s_children s)))\<rparr>
                        else s\<lparr>s_children := (filter (\<lambda>c. c \<noteq> someNode) (fst (s_children s)),
                                 snd (s_children s))\<rparr>);
                  g2 = g1\<lparr>pships := (pships g1)(this := Some s')\<rparr>
              in if p_parentConnection (persons g2 someNode)
                 then Inr (g2\<lparr>persons := (persons g2)(someNode :=
                             (persons g2 someNode)\<lparr>p_parentConnection := False\<rparr>)\<rparr>)
                 else Inl TypeError))"

text \<open>
  \<open>AbstractPerson.remove(isRecursive, removeVisuals)\<close> and \<open>Partnership.remove(isRecursive)\<close>
  call each other. The arrays that the \<open>each\<close> loops run over are not changed while they
  run (\<open>flatten\<close> and \<open>without\<close> build new arrays), so each loop runs over the list read
  when it starts. Removing graphics leaves the store as it is; on a partnership without
  fields \<open>getGraphics().remove()\<close> raises.
\<close>

function (sequential) Person_remove :: "nat \<Rightarrow> graph \<Rightarrow> pref \<Rightarrow> bool \<Rightarrow> bool \<Rightarrow> (error + graph) option"
and Person_remove_partnerships ::
  "nat \<Rightarrow> graph \<Rightarrow> pref \<Rightarrow> sref list \<Rightarrow> pref list \<Rightarrow> (error + (graph \<times> pref list)) option"
and Person_remove_children ::
  "nat \<Rightarrow> graph \<Rightarrow> pref list \<Rightarrow> pref list \<Rightarrow> (error + (graph \<times> pref list)) option"
and Person_remove_toRemove ::
  "nat \<Rightarrow> graph \<Rightarrow> pref \<Rightarrow> pref list \<Rightarrow> bool \<Rightarrow> (error + graph) option"
and Partnership_remove :: "nat \<Rightarrow> graph \<Rightarrow> sref \<Rightarrow> bool \<Rightarrow> (error + graph) option"
and Partnership_remove_each :: "nat \<Rightarrow> graph \<Rightarrow> sref \<Rightarrow> pref list \<Rightarrow> (error + graph) option"
where
  "Person_remove 0 g this isRecursive removeVisuals = None"
| "Person_remove (Suc fuel) g this isRecursive removeVisuals =
     bindR (liftE (getParents g this)) (\<lambda>parents.
     bindR (case parents of
              None \<Rightarrow> Some (Inr g)
            | Some (parent0, parent1) \<Rightarrow>
                bindR (if getType g parent0 = ''ph'' then Person_remove fuel g parent0 False True
                       else Some (Inr g)) (\<lambda>g0.
                  if getType g0 parent1 = ''ph'' then Person_remove fuel g0 parent1 False True
                  else Some (Inr g0))) (\<lambda>g1.
     bindR (Person_remove_partnerships fuel g1 this (getPartnerships g1 this) []) (\<lambda>(g2, toRemove).
     bindR (if isRecursive then Person_remove_toRemove fuel g2 this toRemove removeVisuals
            else Some (Inr g2)) (\<lambda>g3.
     bindR (liftE (case getParentPartnership g3 this of
                     None \<Rightarrow> Inr g3
                   | Some pp \<Rightarrow> removeChild g3 pp this)) (\<lambda>g4.
       Some (Inr (removeNode g4 this)))))))"
| "Person_remove_partnerships fuel g me [] toRemove = Some (Inr (g, toRemove))"
| "Person_remove_partnerships fuel g me (partnership # rest) toRemove =
     bindR (liftE (Partnership_getChildren g partnership None)) (\<lambda>children.
     bindR (Person_remove_children fuel g children toRemove) (\<lambda>(g1, toRemove1).
     bindR (liftE (getPartnerOf g1 partnership me)) (\<lambda>partner.
       case partner of
         None \<Rightarrow> Some (Inl TypeError)
       | Some partner \<Rightarrow>
           bindR (if getType g1 partner = ''ph'' then Person_remove fuel g1 partner False True
                  else Some (Inr g1)) (\<lambda>g2.
           bindR (Partnership_remove fuel g2 partnership False) (\<lambda>g3.
             Person_remove_partnerships fuel g3 me rest toRemove1)))))"
| "Person_remove_children fuel g [] toRemove = Some (Inr (g, toRemove))"
| "Person_remove_children fuel g (child # rest) toRemove =
     (if getType g child = ''ph''
      then bindR (Person_remove fuel g child False True) (\<lambda>g1.
             Person_remove_children fuel g1 rest toRemove)
      else Person_remove_children fuel g rest (toRemove @ [child]))"
| "Person_remove_toRemove fuel g me [] removeVisuals = Some (Inr g)"
| "Person_remove_toRemove fuel g me (node # rest) removeVisuals =
     bindR (liftE (isRelatedTo g node me)) (\<lambda>related.
       if \<not> related
       then bindR (Person_remove fuel g node True removeVisuals) (\<lambda>g1.
              Person_remove_toRemove fuel g1 me rest removeVisuals)
       else Person_remove_toRemove fuel g me rest removeVisuals)"
| "Partnership_remove 0 g this isRecursive = None"
| "Partnership_remove (Suc fuel) g this isRecursive =
     (if isRecursive
      then (case pships g this of None \<Rightarrow> Some (Inl TypeError) | Some s \<Rightarrow> Some (Inr g))
      else (let g1 = removePartnership_editor g this
            in bindR (liftE (Partnership_getChildren g1 this None)) (\<lambda>children.
               bindR (Partnership_remove_each fuel g1 this children) (\<lambda>g2.
               bindR (liftE (Partnership_getPartners g2 this)) (\<lambda>ps.
                 let g3 = removePartnership g2 (fst ps) this
                 in bindR (liftE (Partnership_getPartners g3 this)) (\<lambda>ps'.
                      Some (Inr (removePartnership g3 (snd ps') this))))))))"
| "Partnership_remove_each fuel g me [] = Some (Inr g)"
| "Partnership_remove_each fuel g me (child # rest) =
     (let g1 = setParentPartnership g child None
      in bindR (liftE (removeChild g1 me child)) (\<lambda>g2.
           if getType g2 child = ''ph''
           then bindR (Person_remove fuel g2 child False True) (\<lambda>g3.
                  Partnership_remove_each fuel g3 me rest)
           else Partnership_remove_each fuel g2 me rest))"
  by pat_completeness auto
termination
  by (relation "measures
        [case_sum (case_sum (\<lambda>p. 3 * fst p)
                     (case_sum (\<lambda>p. 3 * fst p + 2) (\<lambda>p. 3 * fst p + 1)))
                  (case_sum (\<lambda>p. 3 * fst p + 1)
                     (case_sum (\<lambda>p. 3 * fst p) (\<lambda>p. 3 * fst p + 1))),
         case_sum (case_sum (\<lambda>p. 0)
                     (case_sum (\<lambda>p. length (fst (snd (snd (snd p)))))
                               (\<lambda>p. length (fst (snd (snd p))))))
                  (case_sum (\<lambda>p. length (fst (snd (snd (snd p)))))
                     (case_sum (\<lambda>p. 0) (\<lambda>p. length (snd (snd (snd p))))))]")
     auto

subsection \<open>Partnership: children\<close>

fun addChild_each :: "nat \<Rightarrow> graph \<Rightarrow> pref list \<Rightarrow> (error + graph) option" where
  "addChild_each fuel g [] = Some (Inr g)"
| "addChild_each fuel g (child # rest) =
     bindR (Person_remove fuel g child False False) (\<lambda>g1. addChild_each fuel g1 rest)"

text \<open>
  \<open>addChild(someNode)\<close> for a node that is not \<open>null\<close>. The placeholder children are
  removed with \<open>child.remove()\<close> (both arguments absent, so falsy); the node is pushed
  on the bucket \<open>+(someNode.getType() == 'ph')\<close>, gets its parent connection and its
  parent partnership. The result is the store and \<open>someNode\<close>.
\<close>

definition addChild :: "nat \<Rightarrow> graph \<Rightarrow> sref \<Rightarrow> pref \<Rightarrow> (error + (graph \<times> pref)) option" where
  "addChild fuel g this someNode =
     bindR (liftE (hasChild g this someNode)) (\<lambda>has.
       if \<not> has \<and> getParentPartnership g someNode = None
       then bindR (liftE (Partnership_getChildren g this (Some ''ph''))) (\<lambda>placeholders.
            bindR (addChild_each fuel g placeholders) (\<lambda>g1.
              case pships g1 this of
                None \<Rightarrow> Some (Inl TypeError)
              | Some s \<Rightarrow>
                  (let s' = (if getType g1 someNode = ''ph''
                             then s\<lparr>s_children := (fst (s_children s), snd (s_children s) @ [someNode])\<rparr>
                             else s\<lparr>s_children := (fst (s_children s) @ [someNode], snd (s_children s))\<rparr>);
                       g2 = g1\<lparr>pships := (pships g1)(this := Some s')\<rparr>;
                       g3 = g2\<lparr>persons := (persons g2)(someNode :=
                              (persons g2 someNode)\<lparr>p_parentConnection := True\<rparr>)\<rparr>
                   in Some (Inr (setParentPartnership g3 someNode (Some this), someNode)))))
       else Some (Inr (g, someNode)))"

text \<open>
  \<open>createChild(isPlaceHolder)\<close>. Two collaborators are parameters:
  \<open>findPosition\<close> is the layout oracle of the editor (the position of the \<open>child\<close>
  role below the partnership with the given id), and \<open>convertToPerson\<close> is the method of
  \<open>PlaceHolder\<close>, which is not among the sources.
\<close>

definition createChild ::
  "(graph \<Rightarrow> nat option \<Rightarrow> rat \<times> rat) \<Rightarrow> (graph \<Rightarrow> pref \<Rightarrow> (error + (graph \<times> pref)) option)
     \<Rightarrow> nat \<Rightarrow> graph \<Rightarrow> sref \<Rightarrow> bool \<Rightarrow> (error + (graph \<times> pref)) option" where
  "createChild findPosition convertToPerson fuel g this isPlaceHolder =
     bindR (liftE (Partnership_getChildren g this None)) (\<lambda>children.
       if children \<noteq> [] \<and> getType g (children ! 0) = ''ph''
       then convertToPerson g (children ! 0)
       else (case pships g this of
               None \<Rightarrow> Some (Inl TypeError)
             | Some s \<Rightarrow>
                 (let position = findPosition g (s_id s);
                      (g1, child) = addNode g (fst position) (snd position) ''U'' isPlaceHolder
                  in bindR (addChild fuel g1 this child) (\<lambda>(g2, result).
                       Some (Inr (g2\<lparr>fired := fired g2 @ [(child, this)]\<rparr>, result))))))"

subsection \<open>Disorder: generateColor\<close>

text \<open>
  The legend registry \<open>getDisorderColors()\<close> is a hash from disorder id to colour, here
  an association list: \<open>keys()\<close> is \<open>map fst\<close>, \<open>values()\<close> is \<open>map snd\<close>,
  \<open>get\<close> is \<open>map_of\<close>. \<open>Raphael.getColor()\<close> is a parameter. The \<open>i\<close>-th
  value of \<open>(1<<24)*Math.random()|0\<close> is \<open>rnd i\<close>, a 24-bit number;
  \<open>toString(16)\<close> writes it in lower-case hexadecimal without leading zeros.
\<close>

definition hexDigit :: "nat \<Rightarrow> char" where
  "hexDigit d = ''0123456789abcdef'' ! d"

function toString16 :: "nat \<Rightarrow> string" where
  "toString16 n = (if n < 16 then [hexDigit n] else toString16 (n div 16) @ [hexDigit (n mod 16)])"
  by pat_completeness auto
termination
  by (relation "measure id") auto

declare toString16.simps [simp del]

definition prefColors :: "string list" where
  "prefColors = [''#FEE090'', ''#E0F3F8'', ''#91BFDB'', ''#4575B4'']"

text \<open>
  The \<open>while\<close> loop draws until the colour is acceptable; nothing bounds it, so it is a
  partial function: \<open>None\<close> is "never returns".
\<close>

partial_function (option) generateColor_while ::
  "string list \<Rightarrow> (nat \<Rightarrow> 24 word) \<Rightarrow> nat \<Rightarrow> string \<Rightarrow> string option" where
  "generateColor_while usedColors rnd i randomColor =
     (if randomColor = ''#ffffff'' \<or> randomColor \<in> set usedColors
      then generateColor_while usedColors rnd (Suc i) (CHR ''#'' # toString16 (unat (rnd i)))
      else Some randomColor)"

declare generateColor_while.simps [code]

definition generateColor ::
  "(string \<times> string) list \<Rightarrow> string \<Rightarrow> string \<Rightarrow> (nat \<Rightarrow> 24 word) \<Rightarrow> string option" where
  "generateColor disorderColors disorderID raphaelColor rnd =
     (if disorderID \<in> set (map fst disorderColors)
      then map_of disorderColors disorderID
      else (let usedColors = map snd disorderColors;
                prefColors1 = fold (\<lambda>color pref. filter (\<lambda>c. c \<noteq> color) pref) usedColors prefColors
            in if length prefColors1 > 0 then Some (prefColors1 ! 0)
               else generateColor_while usedColors rnd 0 raphaelColor))"

subsection \<open>Example stores\<close>

definition person0 :: person where
  "person0 = \<lparr>p_id = 0, p_type = ''pn'', p_gender = ''U'', p_partnerships = [],
     p_parentPartnership = None, p_parentConnection = False, p_x = 0, p_y = 0\<rparr>"

definition graph0 :: graph where
  "graph0 = \<lparr>persons = (\<lambda>_. person0), pships = (\<lambda>_. None), nextPerson = 0, nextPship = 0,
     nextID = 1, nodes = [], edges = [], fired = []\<rparr>"

text \<open>A woman (reference 0) and a placeholder of unknown gender (reference 1).\<close>

definition graph_f_ph :: graph where
  "graph_f_ph = fst (addNode (fst (addNode graph0 0 0 ''F'' False)) 200 0 ''U'' True)"

text \<open>Two placeholders of unknown gender (references 0 and 1).\<close>

definition graph_ph_ph :: graph where
  "graph_ph_ph = fst (addNode (fst (addNode graph0 0 0 ''U'' True)) 200 0 ''U'' True)"

text \<open>
  A woman (0), a man (1) and a person of unknown gender (2); in \<open>graph_couple\<close> the
  woman has taken the man as partner with \<open>addPartner\<close>.
\<close>

definition graph_abc :: graph where
  "graph_abc = fst (addNode (fst (addNode (fst (addNode graph0 0 0 ''F'' False)) 200 0 ''M'' False)) 400 0 ''U'' False)"

definition graph_couple :: graph where
  "graph_couple = (case addPartner 3 graph_abc 0 1 of Some (Inr (g, r)) \<Rightarrow> g | _ \<Rightarrow> graph_abc)"

text \<open>
  Stand-ins for the two collaborators of \<open>createChild\<close>: a layout oracle that always
  answers \<open>(100, 100)\<close>, and a \<open>convertToPerson\<close> that turns the type of the
  placeholder into \<open>"pn"\<close>. The stores: the couple with one real child (3); the same with
  a placeholder child (4) beside it; the couple with a placeholder child (3) only.
\<close>

definition findPosition0 :: "graph \<Rightarrow> nat option \<Rightarrow> rat \<times> rat" where
  "findPosition0 g i = (100, 100)"

definition convertToPerson0 :: "graph \<Rightarrow> pref \<Rightarrow> (error + (graph \<times> pref)) option" where
  "convertToPerson0 g p = Some (Inr (g\<lparr>persons := (persons g)(p := (persons g p)\<lparr>p_type := ''pn''\<rparr>)\<rparr>, p))"

definition graph_family :: graph where
  "graph_family = (case createChild findPosition0 convertToPerson0 3 graph_couple 0 False of
                     Some (Inr (g, c)) \<Rightarrow> g | _ \<Rightarrow> graph_couple)"



text \<open>
  A legend in which four disorders use the four preferred colours, and a source of draws
  whose first value is \<open>255\<close> (the colour \<open>"#ff"\<close>).
\<close>

definition legend4 :: "(string \<times> string) list" where
  "legend4 = [(''143100'', ''#FEE090''), (''219700'', ''#E0F3F8''), (''300624'', ''#91BFDB''),
              (''310200'', ''#4575B4'')]"

definition draws0 :: "nat \<Rightarrow> 24 word" where
  "draws0 i = (if i = 0 then 255 else 0)"

text \<open>
  The parent/child relation of a store, as \<open>isDescendantOf\<close> follows it: \<open>c\<close> is a
  child of \<open>x\<close> when \<open>x.getChildren()\<close> contains \<open>c\<close>.
\<close>

definition children_rel :: "graph \<Rightarrow> (pref \<times> pref) set" where
  "children_rel g = {(x, c). \<exists>cs. getChildren g x = Inr cs \<and> c \<in> set cs}"

text \<open>A store written out in full: a woman (0) and a man (1) with one child (2).\<close>

definition graph_tree :: graph where
  "graph_tree = graph0\<lparr>
     persons := (\<lambda>_. person0)
       (0 := person0\<lparr>p_id := 1, p_gender := ''F'', p_partnerships := [0]\<rparr>,
        1 := person0\<lparr>p_id := 2, p_gender := ''M'', p_partnerships := [0]\<rparr>,
        2 := person0\<lparr>p_id := 4, p_parentPartnership := Some 0, p_parentConnection := True\<rparr>),
     pships := (\<lambda>_. None)
       (0 := Some \<lparr>s_type = ''partnership'', s_partners = (0, 1), s_children = ([2], []),
                   s_graphics = Some (100, 0), s_id = Some 3\<rparr>),
     nextPerson := 3, nextPship := 1, nextID := 5, nodes := [0, 1, 2]\<rparr>"

text \<open>
  The partner relation of a store, as \<open>getStepsToNode\<close> follows it: \<open>q\<close> is a partner
  of \<open>p\<close> when \<open>p.getPartners()\<close> contains \<open>q\<close>.
\<close>

definition partner_rel :: "graph \<Rightarrow> (pref \<times> pref) set" where
  "partner_rel g = {(p, q). \<exists>ps. getPartners g p = Inr ps \<and> q \<in> set ps}"

text \<open>
  The couple after the man (1) has taken the person (2) as second partner; the person's
  gender has become \<open>"F"\<close>.
\<close>

definition graph_chain :: graph where
  "graph_chain = (case addPartner 3 graph_couple 1 2 of Some (Inr (g, r)) \<Rightarrow> g | _ \<Rightarrow> graph_couple)"


section \<open>Basic facts\<close>

lemmas ex_defs = graph_f_ph_def graph_ph_ph_def graph0_def person0_def addNode_def generateID_def
  parseGender_def

lemma bindE_Inr_iff: "bindE m f = Inr y \<longleftrightarrow> (\<exists>x. m = Inr x \<and> f x = Inr y)"
  by (cases m) (simp_all add: bindE_def)

lemma addPartnership_pships: "addPartnership g p s = Inr g' \<Longrightarrow> pships g' = pships g"
  by (auto simp: addPartnership_def bindE_Inr_iff split: if_splits)

lemma addPartnership_getType: "addPartnership g p s = Inr g' \<Longrightarrow> getType g' q = getType g q"
  by (auto simp: addPartnership_def bindE_Inr_iff getType_def split: if_splits)

lemma AbstractNode_initialize_Inr:
  "AbstractNode_initialize g this x y ident = Inr g' \<Longrightarrow>
     \<exists>s i. pships g this = Some s \<and> pships g' this = Some (s\<lparr>s_graphics := Some (x, y), s_id := Some i\<rparr>)"
  by (auto simp: AbstractNode_initialize_def generateID_def split: option.splits if_splits)

section \<open>Partnership construction\<close>

text \<open>
  Claim C1, as amended. The guard of \<open>Partnership.initialize\<close> is
  \<open>partner1.getType() != 'ph' || partner2.getType() != 'ph'\<close>: construction is a no-op
  exactly when both supplied partners are placeholders. Then nothing is stored: the store
  changes only by the allocation of the object without fields, no person and no id counter
  changes. When at least one partner is not a placeholder and the constructor returns, the
  partner pair, the position and an id are stored. So every partnership the constructor
  stores has at least one partner that is not a placeholder.
\<close>

theorem Partnership_initialize_guard:
  "(getType g partner1 = ''ph'' \<and> getType g partner2 = ''ph'' \<longrightarrow>
      Partnership_initialize g x y partner1 partner2 ident =
        Inr (g\<lparr>pships := (pships g)(nextPship g := None), nextPship := Suc (nextPship g)\<rparr>, nextPship g))
   \<and> (\<forall>g' r. Partnership_initialize g x y partner1 partner2 ident = Inr (g', r)
          \<and> (getType g partner1 \<noteq> ''ph'' \<or> getType g partner2 \<noteq> ''ph'') \<longrightarrow>
        (\<exists>s. pships g' r = Some s \<and> s_partners s = (partner1, partner2)
            \<and> s_graphics s = Some (x, y) \<and> s_id s \<noteq> None))
   \<and> (\<forall>g' r. Partnership_initialize g x y partner1 partner2 ident = Inr (g', r)
          \<and> pships g' r \<noteq> None \<longrightarrow>
        getType g partner1 \<noteq> ''ph'' \<or> getType g partner2 \<noteq> ''ph'')"
proof (intro conjI allI impI)
  assume "getType g partner1 = ''ph'' \<and> getType g partner2 = ''ph''"
  then show "Partnership_initialize g x y partner1 partner2 ident =
        Inr (g\<lparr>pships := (pships g)(nextPship g := None), nextPship := Suc (nextPship g)\<rparr>, nextPship g)"
    by (simp add: Partnership_initialize_def Let_def getType_def)
next
  fix g' r
  assume a: "Partnership_initialize g x y partner1 partner2 ident = Inr (g', r)
          \<and> (getType g partner1 \<noteq> ''ph'' \<or> getType g partner2 \<noteq> ''ph'')"
  define g1 where "g1 = g\<lparr>nextPship := Suc (nextPship g),
                      pships := (pships g)(nextPship g := Some
                        \<lparr>s_type = ''partnership'', s_partners = (partner1, partner2),
                         s_children = ([], []), s_graphics = None, s_id = None\<rparr>)\<rparr>"
  have s1: "pships g1 (nextPship g) = Some \<lparr>s_type = ''partnership'', s_partners = (partner1, partner2),
                         s_children = ([], []), s_graphics = None, s_id = None\<rparr>"
    by (simp add: g1_def)
  from a have "bindE (addPartnership g1 partner1 (nextPship g)) (\<lambda>g2.
               bindE (addPartnership g2 partner2 (nextPship g)) (\<lambda>g3.
               bindE (AbstractNode_initialize g3 (nextPship g) x y ident) (\<lambda>g4.
                 Inr (g4, nextPship g)))) = Inr (g', r)"
    by (auto simp: Partnership_initialize_def Let_def getType_def g1_def)
  then obtain g2 g3 where
    r: "r = nextPship g" and
    s2: "addPartnership g1 partner1 (nextPship g) = Inr g2" and
    s3: "addPartnership g2 partner2 (nextPship g) = Inr g3" and
    s4: "AbstractNode_initialize g3 (nextPship g) x y ident = Inr g'"
    by (auto simp: bindE_Inr_iff)
  from s1 s2 s3 have "pships g3 (nextPship g) = Some \<lparr>s_type = ''partnership'', s_partners = (partner1, partner2),
                         s_children = ([], []), s_graphics = None, s_id = None\<rparr>"
    by (simp add: addPartnership_pships)
  with AbstractNode_initialize_Inr [OF s4] r
  show "\<exists>s. pships g' r = Some s \<and> s_partners s = (partner1, partner2)
            \<and> s_graphics s = Some (x, y) \<and> s_id s \<noteq> None"
    by auto
next
  fix g' r
  assume a: "Partnership_initialize g x y partner1 partner2 ident = Inr (g', r) \<and> pships g' r \<noteq> None"
  show "getType g partner1 \<noteq> ''ph'' \<or> getType g partner2 \<noteq> ''ph''"
  proof (rule ccontr)
    assume "\<not> ?thesis"
    with a show False
      by (auto simp: Partnership_initialize_def Let_def getType_def)
  qed
qed

text \<open>
  Witness for C1: two placeholders, where construction stores nothing, and a woman with a
  placeholder, where the partnership is stored.
\<close>

theorem Partnership_initialize_guard_witness:
  "getType graph_ph_ph 0 = ''ph'' \<and> getType graph_ph_ph 1 = ''ph''
   \<and> Partnership_initialize graph_ph_ph 100 0 0 1 None =
        Inr (graph_ph_ph\<lparr>pships := (pships graph_ph_ph)(nextPship graph_ph_ph := None),
               nextPship := Suc (nextPship graph_ph_ph)\<rparr>, nextPship graph_ph_ph)
   \<and> getType graph_f_ph 0 \<noteq> ''ph''
   \<and> (\<exists>g' r s. Partnership_initialize graph_f_ph 100 0 0 1 None = Inr (g', r)
          \<and> pships g' r = Some s \<and> s_partners s = (0, 1)
          \<and> s_graphics s = Some (100, 0) \<and> s_id s \<noteq> None)"
proof -
  have h: "getType graph_ph_ph 0 = ''ph'' \<and> getType graph_ph_ph 1 = ''ph''"
    by (simp add: ex_defs getType_def)
  have k: "getType graph_f_ph 0 \<noteq> ''ph''"
    by (simp add: ex_defs getType_def)
  have "case Partnership_initialize graph_f_ph 100 0 0 1 None of Inl e \<Rightarrow> False | Inr x \<Rightarrow> True"
    by code_simp
  then obtain g' r where i: "Partnership_initialize graph_f_ph 100 0 0 1 None = Inr (g', r)"
    by (cases "Partnership_initialize graph_f_ph 100 0 0 1 None") auto
  with k Partnership_initialize_guard [of graph_f_ph 0 1 100 0 None]
  have "\<exists>s. pships g' r = Some s \<and> s_partners s = (0, 1)
          \<and> s_graphics s = Some (100, 0) \<and> s_id s \<noteq> None"
    by blast
  with i h k Partnership_initialize_guard [of graph_ph_ph 0 1 100 0 None] show ?thesis
    by blast
qed

text \<open>
  Counterexample to C1 as stated: a woman and a placeholder. One supplied partner is a
  placeholder, yet the partner pair, the position and an id are stored and the partnership
  is registered with both partners.
\<close>

theorem Partnership_initialize_placeholder_partner:
  "getType graph_f_ph 0 = ''pn'' \<and> getType graph_f_ph 1 = ''ph''
   \<and> (case Partnership_initialize graph_f_ph 100 0 0 1 None of
        Inl e \<Rightarrow> False
      | Inr (g', r) \<Rightarrow>
          map_option s_partners (pships g' r) = Some (0, 1)
          \<and> map_option s_graphics (pships g' r) = Some (Some (100, 0))
          \<and> map_option s_id (pships g' r) = Some (Some 3)
          \<and> getPartnerships g' 0 = [r] \<and> getPartnerships g' 1 = [r])"
  by (simp add: ex_defs Partnership_initialize_def getType_def bindE_def addPartnership_def
      getPartners_def getPartnerships_def getPartnerOf_def Partnership_getPartners_def
      AbstractNode_initialize_def Let_def)

section \<open>Relatedness\<close>

text \<open>
  A node with a parent partnership has no neighbour list: the call of \<open>getPartner1\<close>
  raises. So does \<open>isRelatedTo\<close> asked from such a node.
\<close>

lemma getPersonNeighbors_parentPartnership:
  "getParentPartnership g node = Some pp \<Longrightarrow> getPersonNeighbors g node = Inl TypeError"
  by (simp add: getPersonNeighbors_def bindE_def)

lemma isRelatedTo_parentPartnership:
  assumes "getParentPartnership g this = Some pp"
  shows "isRelatedTo g this otherNode = Inl TypeError"
proof -
  from assms have "getPersonNeighbors g this = Inl TypeError"
    by (rule getPersonNeighbors_parentPartnership)
  then have "isRelatedTo_for_i g otherNode [this] 0 [] ((\<lambda>_. False)(getID g this := True))
               = Inl TypeError"
    by (subst isRelatedTo_for_i.simps) simp
  then show ?thesis
    unfolding isRelatedTo_def by (subst isRelatedTo_while.simps) simp
qed

text \<open>
  Claim C2 says that \<open>isRelatedTo\<close> is symmetric and returns normally. The code does
  not: the inner loop tests \<open>i\<close> instead of \<open>k\<close>, so it runs past the end of a
  non-empty neighbour list. In \<open>graph_couple\<close> the woman (0) has one neighbour, her
  partner; asked about the unrelated person (2) the search raises, while the person (2),
  who has no neighbours, gets \<open>false\<close> when asked about the woman. In \<open>graph_chain\<close>,
  where (2) is a partner of the woman's partner, the search from the woman raises as well
  instead of finding (2) at the second level.
\<close>

theorem isRelatedTo_not_symmetric:
  "getPersonNeighbors graph_couple 0 = Inr [1] \<and> getPersonNeighbors graph_couple 2 = Inr []
   \<and> isRelatedTo graph_couple 0 2 = Inl TypeError \<and> isRelatedTo graph_couple 2 0 = Inr False
   \<and> getPersonNeighbors graph_chain 0 = Inr [1] \<and> getPersonNeighbors graph_chain 1 = Inr [0, 2]
   \<and> isRelatedTo graph_chain 0 2 = Inl TypeError"
  by code_simp

section \<open>Self-partnering\<close>

text \<open>
  Claim C10. A person \<open>P\<close> that is not among its own partners cannot take itself as
  partner: \<open>getStepsToNode\<close> finds \<open>P\<close> at distance \<open>0\<close>, which is even, so
  \<open>canPartnerWith\<close> is false whatever the gender, and \<open>addPartner\<close> returns nothing
  and leaves the store (so the partnership list of \<open>P\<close>) unchanged. One unit of fuel is
  enough.
\<close>

theorem addPartner_self:
  assumes "getPartners g P = Inr ps" and "P \<notin> set ps"
  shows "canPartnerWith (Suc fuel) g P P = Some (Inr False)
         \<and> addPartner (Suc fuel) g P P = Some (Inr (g, None))"
  using assms by (simp add: addPartner_def canPartnerWith_def bindR_def liftE_def Let_def)

text \<open>Witness for C10: the woman of \<open>graph_couple\<close>, whose only partner is the man.\<close>

theorem addPartner_self_witness:
  "getPartners graph_couple 0 = Inr [1] \<and> 0 \<notin> set [1::nat]
   \<and> canPartnerWith (Suc 0) graph_couple 0 0 = Some (Inr False)
   \<and> addPartner (Suc 0) graph_couple 0 0 = Some (Inr (graph_couple, None))"
proof -
  have h: "getPartners graph_couple 0 = Inr [1]" by code_simp
  have h2: "0 \<notin> set [1::nat]" by simp
  from addPartner_self [OF h h2, of 0] h h2 show ?thesis by simp
qed

section \<open>Children of a partnership\<close>

text \<open>
  Claim C7. For a constructed partnership and a node that is already among its children or
  already has a parent partnership, \<open>addChild\<close> returns the node and the store it was
  given: no error, no bucket and no parent partnership changes, and no fuel is used since
  nothing is removed.
\<close>

theorem addChild_rejects:
  assumes "pships g this = Some s"
    and "someNode \<in> set (fst (s_children s) @ snd (s_children s)) \<or> getParentPartnership g someNode \<noteq> None"
  shows "addChild fuel g this someNode = Some (Inr (g, someNode))"
  using assms
  by (auto simp: addChild_def hasChild_def Partnership_getChildren_def bindR_def liftE_def bindE_def)

text \<open>Witness for C7: the child (3) of the couple is offered to its own partnership again.\<close>

theorem addChild_rejects_witness:
  "map_option s_children (pships graph_family 0) = Some ([3], [])
   \<and> getParentPartnership graph_family 3 = Some 0
   \<and> addChild 0 graph_family 0 3 = Some (Inr (graph_family, 3))"
proof -
  have c: "map_option s_children (pships graph_family 0) = Some ([3], [])" by code_simp
  have p: "getParentPartnership graph_family 3 = Some 0" by code_simp
  from c obtain s where s: "pships graph_family 0 = Some s" and sc: "s_children s = ([3], [])"
    by auto
  from addChild_rejects [OF s, of 3 0] sc c p show ?thesis by simp
qed




section \<open>Disorder colours\<close>

lemma fold_without:
  "fold (\<lambda>color pref. filter (\<lambda>c. c \<noteq> color) pref) used pref = filter (\<lambda>c. c \<notin> set used) pref"
proof (induction used arbitrary: pref)
  case Nil
  then show ?case by simp
next
  case (Cons u used)
  have "filter (\<lambda>c. c \<notin> set used) (filter (\<lambda>c. c \<noteq> u) pref) = filter (\<lambda>c. c \<notin> set (u # used)) pref"
    by (induction pref) auto
  with Cons show ?case by simp
qed

lemma generateColor_while_Some:
  assumes a: "generateColor_while used rnd i c0 = Some c"
  shows "c \<noteq> ''#ffffff'' \<and> c \<notin> set used"
proof (rule generateColor_while.raw_induct
         [where P = "\<lambda>u r j d y. y \<noteq> ''#ffffff'' \<and> y \<notin> set u", OF _ a])
  fix f :: "string list \<Rightarrow> (nat \<Rightarrow> 24 word) \<Rightarrow> nat \<Rightarrow> string \<Rightarrow> string option"
  fix u r j d y
  assume IH: "\<And>u r j d y. f u r j d = Some y \<Longrightarrow> y \<noteq> ''#ffffff'' \<and> y \<notin> set u"
    and st: "(if d = ''#ffffff'' \<or> d \<in> set u
              then f u r (Suc j) (CHR ''#'' # toString16 (unat (r j)))
              else Some d) = Some y"
  show "y \<noteq> ''#ffffff'' \<and> y \<notin> set u"
  proof (cases "d = ''#ffffff'' \<or> d \<in> set u")
    case True
    with st have "f u r (Suc j) (CHR ''#'' # toString16 (unat (r j))) = Some y" by simp
    then show ?thesis by (rule IH)
  next
    case False
    with st show ?thesis by auto
  qed
qed

lemma generateColor_while_returns:
  assumes "i \<le> n"
    and "CHR ''#'' # toString16 (unat (rnd n)) \<noteq> ''#ffffff''"
    and "CHR ''#'' # toString16 (unat (rnd n)) \<notin> set used"
  shows "\<exists>c. generateColor_while used rnd i c0 = Some c"
  using assms
proof (induction "Suc n - i" arbitrary: i c0)
  case 0
  then show ?case by simp
next
  case (Suc k)
  show ?case
  proof (cases "c0 = ''#ffffff'' \<or> c0 \<in> set used")
    case False
    then show ?thesis by (subst generateColor_while.simps) simp
  next
    case True
    show ?thesis
    proof (cases "i = n")
      case True
      have "generateColor_while used rnd (Suc i) (CHR ''#'' # toString16 (unat (rnd i))) =
              Some (CHR ''#'' # toString16 (unat (rnd i)))"
        using Suc.prems True by (subst generateColor_while.simps) simp
      with \<open>c0 = ''#ffffff'' \<or> c0 \<in> set used\<close> show ?thesis
        by (subst generateColor_while.simps) simp
    next
      case False
      with Suc.prems have "Suc i \<le> n" by simp
      moreover from Suc.hyps(2) have "k = Suc n - Suc i" by simp
      ultimately have "\<exists>c. generateColor_while used rnd (Suc i) (CHR ''#'' # toString16 (unat (rnd i))) = Some c"
        using Suc.hyps(1) Suc.prems by blast
      with \<open>c0 = ''#ffffff'' \<or> c0 \<in> set used\<close> show ?thesis
        by (subst generateColor_while.simps) simp
    qed
  qed
qed

lemma generateColor_while_accepts:
  assumes "c0 \<noteq> ''#ffffff''" and "c0 \<notin> set used"
  shows "generateColor_while used rnd i c0 = Some c0"
  using assms by (subst generateColor_while.simps) simp

text \<open>
  Claim C9. If the disorder id has a colour in the legend registry, \<open>generateColor\<close>
  returns that colour. Otherwise, when all four preferred colours are in use, any colour it
  returns is neither \<open>"#ffffff"\<close> nor a colour in use; and it does return as soon as
  the colour of \<open>Raphael.getColor()\<close> or some draw is acceptable (with a source of
  draws that never is, the loop does not end).
\<close>

theorem generateColor_spec:
  "(disorderID \<in> set (map fst disorderColors) \<longrightarrow>
      (\<exists>c. map_of disorderColors disorderID = Some c
         \<and> generateColor disorderColors disorderID raphaelColor rnd = Some c))
   \<and> (disorderID \<notin> set (map fst disorderColors) \<and> set prefColors \<subseteq> set (map snd disorderColors) \<longrightarrow>
        (\<forall>c. generateColor disorderColors disorderID raphaelColor rnd = Some c \<longrightarrow>
              c \<noteq> ''#ffffff'' \<and> c \<notin> set (map snd disorderColors))
        \<and> ((raphaelColor \<noteq> ''#ffffff'' \<and> raphaelColor \<notin> set (map snd disorderColors))
            \<or> (\<exists>n. CHR ''#'' # toString16 (unat (rnd n)) \<noteq> ''#ffffff''
                   \<and> CHR ''#'' # toString16 (unat (rnd n)) \<notin> set (map snd disorderColors)) \<longrightarrow>
            (\<exists>c. generateColor disorderColors disorderID raphaelColor rnd = Some c)))"
proof (intro conjI impI)
  assume a: "disorderID \<in> set (map fst disorderColors)"
  then obtain c where "map_of disorderColors disorderID = Some c"
    by (metis not_Some_eq map_of_eq_None_iff set_map)
  with a show "\<exists>c. map_of disorderColors disorderID = Some c
         \<and> generateColor disorderColors disorderID raphaelColor rnd = Some c"
    by (simp add: generateColor_def)
next
  assume a: "disorderID \<notin> set (map fst disorderColors) \<and> set prefColors \<subseteq> set (map snd disorderColors)"
  then have e: "filter (\<lambda>c. c \<notin> set (map snd disorderColors)) prefColors = []"
    by (auto simp: filter_empty_conv)
  with a have g: "generateColor disorderColors disorderID raphaelColor rnd =
      generateColor_while (map snd disorderColors) rnd 0 raphaelColor"
    by (simp add: generateColor_def Let_def fold_without)
  show "\<forall>c. generateColor disorderColors disorderID raphaelColor rnd = Some c \<longrightarrow>
              c \<noteq> ''#ffffff'' \<and> c \<notin> set (map snd disorderColors)"
  proof (intro allI impI)
    fix c
    assume "generateColor disorderColors disorderID raphaelColor rnd = Some c"
    with g have "generateColor_while (map snd disorderColors) rnd 0 raphaelColor = Some c"
      by simp
    then show "c \<noteq> ''#ffffff'' \<and> c \<notin> set (map snd disorderColors)"
      by (rule generateColor_while_Some)
  qed
  show "\<exists>c. generateColor disorderColors disorderID raphaelColor rnd = Some c"
    if h: "(raphaelColor \<noteq> ''#ffffff'' \<and> raphaelColor \<notin> set (map snd disorderColors))
            \<or> (\<exists>n. CHR ''#'' # toString16 (unat (rnd n)) \<noteq> ''#ffffff''
                   \<and> CHR ''#'' # toString16 (unat (rnd n)) \<notin> set (map snd disorderColors))"
  proof -
    from h have "\<exists>c. generateColor_while (map snd disorderColors) rnd 0 raphaelColor = Some c"
    proof
      assume "raphaelColor \<noteq> ''#ffffff'' \<and> raphaelColor \<notin> set (map snd disorderColors)"
      then show ?thesis
        using generateColor_while_accepts [of raphaelColor "map snd disorderColors" rnd 0] by blast
    next
      assume "\<exists>n. CHR ''#'' # toString16 (unat (rnd n)) \<noteq> ''#ffffff''
                   \<and> CHR ''#'' # toString16 (unat (rnd n)) \<notin> set (map snd disorderColors)"
      then obtain n where "CHR ''#'' # toString16 (unat (rnd n)) \<noteq> ''#ffffff''"
        and "CHR ''#'' # toString16 (unat (rnd n)) \<notin> set (map snd disorderColors)"
        by blast
      then show ?thesis
        using generateColor_while_returns [of 0 n rnd "map snd disorderColors" raphaelColor] by blast
    qed
    with g show ?thesis by simp
  qed
qed


text \<open>
  Witness for C9: a disorder already in the legend keeps its colour; for a fifth disorder,
  with white from \<open>Raphael.getColor()\<close>, the first draw \<open>"#ff"\<close> is returned.
\<close>

theorem generateColor_spec_witness:
  "''300624'' \<in> set (map fst legend4)
   \<and> map_of legend4 ''300624'' = Some ''#91BFDB''
   \<and> generateColor legend4 ''300624'' ''#ffffff'' draws0 = Some ''#91BFDB''
   \<and> ''603903'' \<notin> set (map fst legend4) \<and> set prefColors \<subseteq> set (map snd legend4)
   \<and> CHR ''#'' # toString16 (unat (draws0 0)) = ''#ff''
   \<and> generateColor legend4 ''603903'' ''#ffffff'' draws0 = Some ''#ff''
   \<and> ''#ff'' \<noteq> ''#ffffff'' \<and> ''#ff'' \<notin> set (map snd legend4)"
proof -
  have a: "''300624'' \<in> set (map fst legend4)" by (simp add: legend4_def)
  have b: "''603903'' \<notin> set (map fst legend4) \<and> set prefColors \<subseteq> set (map snd legend4)"
    by (simp add: legend4_def prefColors_def)
  have m: "map_of legend4 ''300624'' = Some ''#91BFDB''" by (simp add: legend4_def)
  have u: "unat (draws0 0) = 255" by (simp add: draws0_def)
  have t: "toString16 255 = ''ff''" by code_simp
  from u t have d: "CHR ''#'' # toString16 (unat (draws0 0)) = ''#ff''" by simp
  have ok: "''#ff'' \<noteq> ''#ffffff'' \<and> ''#ff'' \<notin> set (map snd legend4)"
    by (simp add: legend4_def)
  from generateColor_spec [of "''300624''" legend4 "''#ffffff''" draws0] a m
  have 1: "generateColor legend4 ''300624'' ''#ffffff'' draws0 = Some ''#91BFDB''" by auto
  from d ok have "\<exists>n. CHR ''#'' # toString16 (unat (draws0 n)) \<noteq> ''#ffffff''
       \<and> CHR ''#'' # toString16 (unat (draws0 n)) \<notin> set (map snd legend4)"
    by metis
  with generateColor_spec [of "''603903''" legend4 "''#ffffff''" draws0] b
  obtain c where c: "generateColor legend4 ''603903'' ''#ffffff'' draws0 = Some c"
    by blast
  have "generateColor legend4 ''603903'' ''#ffffff'' draws0 =
        generateColor_while (map snd legend4) draws0 0 ''#ffffff''"
    by (simp add: generateColor_def legend4_def prefColors_def)
  also have "\<dots> = generateColor_while (map snd legend4) draws0 (Suc 0) ''#ff''"
    by (subst generateColor_while.simps) (simp add: d)
  also have "\<dots> = Some ''#ff''"
    by (subst generateColor_while.simps) (simp add: legend4_def)
  finally have e: "generateColor legend4 ''603903'' ''#ffffff'' draws0 = Some ''#ff''" .
  from a b m d e 1 ok show ?thesis by blast
qed

section \<open>Descendants\<close>

lemma bindR_Some_iff:
  "bindR m f = Some r \<longleftrightarrow>
     (\<exists>e. m = Some (Inl e) \<and> r = Inl e) \<or> (\<exists>x. m = Some (Inr x) \<and> f x = Some r)"
  by (auto simp: bindR_def split: option.splits sum.splits)

lemma isDescendantOf_while_returns:
  assumes "\<forall>c \<in> set cs. \<exists>r. isDescendantOf fuel g this c = Some r"
  shows "\<exists>r. isDescendantOf_while fuel g this cs found = Some r"
  using assms
proof (induction cs arbitrary: found)
  case Nil
  then show ?case by simp
next
  case (Cons c cs)
  then obtain r where r: "isDescendantOf fuel g this c = Some r" by auto
  show ?case
  proof (cases found)
    case True
    then show ?thesis by simp
  next
    case False
    show ?thesis
    proof (cases r)
      case (Inl e)
      with r False show ?thesis by (simp add: bindR_def)
    next
      case (Inr b)
      from Cons have "\<exists>r. isDescendantOf_while fuel g this cs b = Some r" by simp
      with r Inr False show ?thesis by (simp add: bindR_def)
    qed
  qed
qed

lemma fuel_bound_list:
  assumes "\<forall>c \<in> set cs. \<exists>N :: nat. \<forall>fuel \<ge> N. \<exists>r. f fuel c = Some (r :: 'b)"
  shows "\<exists>N. \<forall>fuel \<ge> N. \<forall>c \<in> set cs. \<exists>r. f fuel c = Some r"
  using assms
proof (induction cs)
  case Nil
  then show ?case by simp
next
  case (Cons c cs)
  then obtain N1 where N1: "\<forall>fuel \<ge> N1. \<forall>c \<in> set cs. \<exists>r. f fuel c = Some r" by auto
  from Cons.prems obtain N2 where N2: "\<forall>fuel \<ge> N2. \<exists>r. f fuel c = Some r" by auto
  have "\<forall>fuel \<ge> max N1 N2. \<forall>c' \<in> set (c # cs). \<exists>r. f fuel c' = Some r"
  proof (intro allI impI ballI)
    fix fuel c'
    assume m: "max N1 N2 \<le> fuel" and c': "c' \<in> set (c # cs)"
    from m have "N1 \<le> fuel" "N2 \<le> fuel" by simp_all
    with N1 N2 c' show "\<exists>r. f fuel c' = Some r" by (cases "c' = c") auto
  qed
  then show ?case by blast
qed

lemma isDescendantOf_returns:
  assumes "wf ((children_rel g)\<inverse>)"
  shows "\<exists>N. \<forall>fuel \<ge> N. \<exists>r. isDescendantOf fuel g this otherNode = Some r"
  using assms
proof (induction otherNode rule: wf_induct_rule)
  case (less otherNode)
  show ?case
  proof (cases "getChildren g otherNode")
    case (Inl e)
    have "\<forall>fuel \<ge> Suc 0. \<exists>r. isDescendantOf fuel g this otherNode = Some r"
    proof (intro allI impI)
      fix fuel :: nat
      assume "Suc 0 \<le> fuel"
      then obtain n where "fuel = Suc n" by (cases fuel) auto
      with Inl show "\<exists>r. isDescendantOf fuel g this otherNode = Some r"
        by (simp add: isParentOf_def bindE_def bindR_def liftE_def)
    qed
    then show ?thesis by blast
  next
    case (Inr cs)
    have "\<forall>c \<in> set cs. \<exists>N. \<forall>fuel \<ge> N. \<exists>r. isDescendantOf fuel g this c = Some r"
    proof
      fix c
      assume "c \<in> set cs"
      with Inr have "(c, otherNode) \<in> (children_rel g)\<inverse>"
        by (auto simp: children_rel_def)
      then show "\<exists>N. \<forall>fuel \<ge> N. \<exists>r. isDescendantOf fuel g this c = Some r"
        by (rule less)
    qed
    then obtain N where N: "\<forall>fuel \<ge> N. \<forall>c \<in> set cs. \<exists>r. isDescendantOf fuel g this c = Some r"
      using fuel_bound_list [of cs "\<lambda>fuel c. isDescendantOf fuel g this c"] by blast
    have "\<forall>fuel \<ge> Suc N. \<exists>r. isDescendantOf fuel g this otherNode = Some r"
    proof (intro allI impI)
      fix fuel :: nat
      assume "Suc N \<le> fuel"
      then obtain n where n: "fuel = Suc n" "N \<le> n" by (cases fuel) auto
      with N have "\<forall>c \<in> set cs. \<exists>r. isDescendantOf n g this c = Some r" by blast
      then have "\<exists>r. isDescendantOf_while n g this cs False = Some r"
        by (rule isDescendantOf_while_returns)
      with Inr n show "\<exists>r. isDescendantOf fuel g this otherNode = Some r"
        by (auto simp: isParentOf_def bindE_def bindR_def liftE_def)
    qed
    then show ?thesis by blast
  qed
qed

text \<open>
  Claim C8. When the parent/child relation of the store is finite and acyclic,
  \<open>isDescendantOf\<close> and \<open>isAncestorOf\<close> return for every pair of persons: there is
  an amount of fuel from which on the model returns a value (a boolean or an error).
\<close>

theorem isDescendantOf_terminates:
  assumes "finite (children_rel g)" and "acyclic (children_rel g)"
  shows "\<exists>N. \<forall>fuel \<ge> N. (\<exists>r. isDescendantOf fuel g this otherNode = Some r)
                      \<and> (\<exists>r. isAncestorOf fuel g this otherNode = Some r)"
proof -
  from assms have w: "wf ((children_rel g)\<inverse>)" by (rule finite_acyclic_wf_converse)
  from isDescendantOf_returns [OF w, of this otherNode]
  obtain N1 where N1: "\<forall>fuel \<ge> N1. \<exists>r. isDescendantOf fuel g this otherNode = Some r" by blast
  from isDescendantOf_returns [OF w, of otherNode this]
  obtain N2 where N2: "\<forall>fuel \<ge> N2. \<exists>r. isDescendantOf fuel g otherNode this = Some r" by blast
  have "\<forall>fuel \<ge> max N1 N2. (\<exists>r. isDescendantOf fuel g this otherNode = Some r)
                      \<and> (\<exists>r. isAncestorOf fuel g this otherNode = Some r)"
    using N1 N2 by (simp add: isAncestorOf_def)
  then show ?thesis by blast
qed

lemma getPartnerships_graph_tree:
  "getPartnerships graph_tree x = (if x = 0 \<or> x = 1 then [0] else [])"
  by (simp add: getPartnerships_def graph_tree_def graph0_def person0_def)

lemma getChildren_graph_tree:
  "getChildren graph_tree x = (if x = 0 \<or> x = 1 then Inr [2] else Inr [])"
proof -
  have "Partnership_getChildren graph_tree 0 None = Inr [2]"
    by (simp add: Partnership_getChildren_def graph_tree_def graph0_def)
  then show ?thesis
    by (simp add: getChildren_def getPartnerships_graph_tree bindE_def)
qed

lemma children_rel_graph_tree: "children_rel graph_tree = {(0, 2), (1, 2)}"
  by (auto simp: children_rel_def getChildren_graph_tree split: if_splits)

text \<open>
  Witness for C8: in \<open>graph_tree\<close> the relation is \<open>{(0, 2), (1, 2)}\<close>; the child
  is a descendant of the woman and not her ancestor.
\<close>

theorem isDescendantOf_terminates_witness:
  "finite (children_rel graph_tree) \<and> acyclic (children_rel graph_tree)
   \<and> (\<exists>N. \<forall>fuel \<ge> N. (\<exists>r. isDescendantOf fuel graph_tree 2 0 = Some r)
                      \<and> (\<exists>r. isAncestorOf fuel graph_tree 2 0 = Some r))
   \<and> isDescendantOf 1 graph_tree 2 0 = Some (Inr True)
   \<and> isAncestorOf 2 graph_tree 2 0 = Some (Inr False)"
proof -
  have f: "finite (children_rel graph_tree)" by (simp add: children_rel_graph_tree)
  have "(2::nat, 0::nat) \<notin> {(1, 2)}\<^sup>*"
    by (auto elim: converse_rtranclE)
  moreover have "acyclic ({} :: (nat \<times> nat) set)" by (simp add: acyclic_def)
  ultimately have a: "acyclic (children_rel graph_tree)"
    by (simp add: children_rel_graph_tree acyclic_insert)
  have e: "isDescendantOf 1 graph_tree 2 0 = Some (Inr True)" by code_simp
  have e2: "isAncestorOf 2 graph_tree 2 0 = Some (Inr False)" by code_simp
  from isDescendantOf_terminates [OF f a, of 2 0] f a e e2 show ?thesis by blast
qed

section \<open>Partner distance and canPartnerWith\<close>

text \<open>
  The depth-first search \<open>getStepsToNode\<close>, for a finite set \<open>U\<close> of persons that is
  closed under \<open>getPartners\<close>. With more fuel than unvisited persons the search returns;
  a number it returns is the length of a partner path to \<open>other\<close>; when it returns none,
  \<open>other\<close> is not among the newly visited persons and these have all their partners
  visited.
\<close>

lemma card_Diff_mono:
  assumes "finite U" and "A \<subseteq> B"
  shows "card (U - B) \<le> card (U - A)"
  using assms by (intro card_mono) auto

lemma card_Diff_less:
  assumes "finite U" and "p \<in> U" and "p \<notin> A"
  shows "card (U - A - {p}) < card (U - A)"
  using assms by (intro psubset_card_mono) auto

lemma getStepsToNode_each_post:
  assumes fin: "finite U"
    and call: "\<And>this visited. this \<in> U \<Longrightarrow> card (U - set visited - {this}) < fuel \<Longrightarrow>
        \<exists>r v'. getStepsToNode fuel g this other visited = Some (Inr (r, v'))
          \<and> set visited \<union> {this} \<subseteq> set v'
          \<and> (\<forall>k. r = Some k \<longrightarrow> (this, other) \<in> partner_rel g ^^ k)
          \<and> (r = None \<longrightarrow> other \<notin> set v' - set visited
                \<and> (\<forall>x \<in> set v' - set visited. \<forall>q. (x, q) \<in> partner_rel g \<longrightarrow> q \<in> set v'))"
    and ps: "set ps \<subseteq> U" and c: "card (U - set v) \<le> fuel"
  shows "\<exists>r v'. getStepsToNode_each fuel g other ps None v = Some (Inr (r, v'))
          \<and> set v \<subseteq> set v'
          \<and> (\<forall>k. r = Some k \<longrightarrow> (\<exists>p \<in> set ps. \<exists>j. k = Suc j \<and> (p, other) \<in> partner_rel g ^^ j))
          \<and> (r = None \<longrightarrow> other \<notin> set v' - set v
                \<and> (\<forall>x \<in> set v' - set v. \<forall>q. (x, q) \<in> partner_rel g \<longrightarrow> q \<in> set v')
                \<and> set ps \<subseteq> set v')"
  using ps c
proof (induction ps arbitrary: v)
  case Nil
  then show ?case by simp
next
  case (Cons p rest)
  show ?case
  proof (cases "p \<in> set v")
    case True
    from Cons.prems have "set rest \<subseteq> U" by simp
    from Cons.IH [OF this Cons.prems(2)] True show ?thesis by auto
  next
    case False
    from Cons.prems have pU: "p \<in> U" by simp
    with fin False Cons.prems(2) have "card (U - set v - {p}) < fuel"
      using card_Diff_less [of U p "set v"] by simp
    from call [OF pU this] obtain r1 v1 where
      s1: "getStepsToNode fuel g p other v = Some (Inr (r1, v1))" and
      m1: "set v \<union> {p} \<subseteq> set v1" and
      f1: "\<forall>k. r1 = Some k \<longrightarrow> (p, other) \<in> partner_rel g ^^ k" and
      n1: "r1 = None \<longrightarrow> other \<notin> set v1 - set v
                \<and> (\<forall>x \<in> set v1 - set v. \<forall>q. (x, q) \<in> partner_rel g \<longrightarrow> q \<in> set v1)"
      by blast
    show ?thesis
    proof (cases r1)
      case (Some k)
      with s1 False have "getStepsToNode_each fuel g other (p # rest) None v = Some (Inr (Some (Suc k), v1))"
        by (simp add: bindR_def)
      with m1 f1 Some show ?thesis by auto
    next
      case None
      from fin m1 Cons.prems(2) have "card (U - set v1) \<le> fuel"
        using card_Diff_mono [of U "set v" "set v1"] by simp
      moreover from Cons.prems have "set rest \<subseteq> U" by simp
      ultimately obtain r v' where
        s2: "getStepsToNode_each fuel g other rest None v1 = Some (Inr (r, v'))" and
        m2: "set v1 \<subseteq> set v'" and
        f2: "\<forall>k. r = Some k \<longrightarrow> (\<exists>p \<in> set rest. \<exists>j. k = Suc j \<and> (p, other) \<in> partner_rel g ^^ j)" and
        n2: "r = None \<longrightarrow> other \<notin> set v' - set v1
                \<and> (\<forall>x \<in> set v' - set v1. \<forall>q. (x, q) \<in> partner_rel g \<longrightarrow> q \<in> set v')
                \<and> set rest \<subseteq> set v'"
        using Cons.IH [of v1] by blast
      from s1 s2 None False have e: "getStepsToNode_each fuel g other (p # rest) None v = Some (Inr (r, v'))"
        by (simp add: bindR_def)
      have a: "set v \<subseteq> set v'" using m1 m2 by auto
      have b: "\<forall>k. r = Some k \<longrightarrow> (\<exists>p' \<in> set (p # rest). \<exists>j. k = Suc j \<and> (p', other) \<in> partner_rel g ^^ j)"
        using f2 by auto
      have d: "r = None \<longrightarrow> other \<notin> set v' - set v
                \<and> (\<forall>x \<in> set v' - set v. \<forall>q. (x, q) \<in> partner_rel g \<longrightarrow> q \<in> set v')
                \<and> set (p # rest) \<subseteq> set v'"
      proof
        assume rn: "r = None"
        note n1' = mp [OF n1 None] and n2' = mp [OF n2 rn]
        note n1a = n1' [THEN conjunct1] and n1b = n1' [THEN conjunct2, rule_format]
        note n2a = n2' [THEN conjunct1] and n2b = n2' [THEN conjunct2, THEN conjunct1, rule_format]
          and n2c = n2' [THEN conjunct2, THEN conjunct2]
        have 1: "other \<notin> set v' - set v"
        proof
          assume o: "other \<in> set v' - set v"
          show False
          proof (cases "other \<in> set v1")
            case True
            with o n1a show False by simp
          next
            case False
            with o n2a show False by simp
          qed
        qed
        have 2: "\<forall>x \<in> set v' - set v. \<forall>q. (x, q) \<in> partner_rel g \<longrightarrow> q \<in> set v'"
        proof (intro ballI allI impI)
          fix x q
          assume x: "x \<in> set v' - set v" and q: "(x, q) \<in> partner_rel g"
          show "q \<in> set v'"
          proof (cases "x \<in> set v1")
            case True
            with x have "x \<in> set v1 - set v" by simp
            from n1b [OF this q] have "q \<in> set v1" .
            with m2 show ?thesis by (rule subsetD)
          next
            case False
            with x have "x \<in> set v' - set v1" by simp
            from n2b [OF this q] show ?thesis .
          qed
        qed
        from m1 have "p \<in> set v1" by simp
        with m2 have "p \<in> set v'" by (rule subsetD)
        with n2c have 3: "set (p # rest) \<subseteq> set v'" by simp
        from 1 2 3 show "other \<notin> set v' - set v
                \<and> (\<forall>x \<in> set v' - set v. \<forall>q. (x, q) \<in> partner_rel g \<longrightarrow> q \<in> set v')
                \<and> set (p # rest) \<subseteq> set v'"
          by (intro conjI)
      qed
      show ?thesis
        by (intro exI [of _ r] exI [of _ v'] conjI e a b d)
    qed
  qed
qed

lemma getStepsToNode_post:
  assumes fin: "finite U"
    and closed: "\<forall>p \<in> U. \<exists>ps. getPartners g p = Inr ps \<and> set ps \<subseteq> U"
  shows "this \<in> U \<Longrightarrow> card (U - set visited - {this}) < fuel \<Longrightarrow>
        \<exists>r v'. getStepsToNode fuel g this other visited = Some (Inr (r, v'))
          \<and> set visited \<union> {this} \<subseteq> set v'
          \<and> (\<forall>k. r = Some k \<longrightarrow> (this, other) \<in> partner_rel g ^^ k)
          \<and> (r = None \<longrightarrow> other \<notin> set v' - set visited
                \<and> (\<forall>x \<in> set v' - set visited. \<forall>q. (x, q) \<in> partner_rel g \<longrightarrow> q \<in> set v'))"
proof (induction fuel arbitrary: this visited)
  case 0
  then show ?case by simp
next
  case (Suc fuel)
  show ?case
  proof (cases "this = other")
    case True
    then show ?thesis by (auto simp: Let_def)
  next
    case False
    from closed Suc.prems(1) obtain ps where ps: "getPartners g this = Inr ps" "set ps \<subseteq> U"
      by blast
    have "U - set (visited @ [this]) = U - set visited - {this}" by auto
    with Suc.prems(2) have c: "card (U - set (visited @ [this])) \<le> fuel" by simp
    from getStepsToNode_each_post [OF fin Suc.IH ps(2) c] obtain r v' where
      s: "getStepsToNode_each fuel g other ps None (visited @ [this]) = Some (Inr (r, v'))" and
      m: "set (visited @ [this]) \<subseteq> set v'" and
      f: "\<forall>k. r = Some k \<longrightarrow> (\<exists>p \<in> set ps. \<exists>j. k = Suc j \<and> (p, other) \<in> partner_rel g ^^ j)" and
      n: "r = None \<longrightarrow> other \<notin> set v' - set (visited @ [this])
                \<and> (\<forall>x \<in> set v' - set (visited @ [this]). \<forall>q. (x, q) \<in> partner_rel g \<longrightarrow> q \<in> set v')
                \<and> set ps \<subseteq> set v'"
      by blast
    from s ps False have e: "getStepsToNode (Suc fuel) g this other visited = Some (Inr (r, v'))"
      by (simp add: Let_def bindR_def liftE_def)
    have a: "set visited \<union> {this} \<subseteq> set v'" using m by auto
    have b: "\<forall>k. r = Some k \<longrightarrow> (this, other) \<in> partner_rel g ^^ k"
    proof (intro allI impI)
      fix k assume "r = Some k"
      with f obtain p j where p: "p \<in> set ps" "k = Suc j" "(p, other) \<in> partner_rel g ^^ j"
        by blast
      from ps p(1) have "(this, p) \<in> partner_rel g" by (auto simp: partner_rel_def)
      from this p(3) have "(this, other) \<in> partner_rel g ^^ Suc j"
        by (rule relpow_Suc_I2)
      with p(2) show "(this, other) \<in> partner_rel g ^^ k" by simp
    qed
    have d: "r = None \<longrightarrow> other \<notin> set v' - set visited
                \<and> (\<forall>x \<in> set v' - set visited. \<forall>q. (x, q) \<in> partner_rel g \<longrightarrow> q \<in> set v')"
    proof
      assume rn: "r = None"
      note n' = mp [OF n rn]
      note na = n' [THEN conjunct1] and nb = n' [THEN conjunct2, THEN conjunct1, rule_format]
        and nc = n' [THEN conjunct2, THEN conjunct2]
      have 1: "other \<notin> set v' - set visited" using na False by simp
      have 2: "\<forall>x \<in> set v' - set visited. \<forall>q. (x, q) \<in> partner_rel g \<longrightarrow> q \<in> set v'"
      proof (intro ballI allI impI)
        fix x q
        assume x: "x \<in> set v' - set visited" and q: "(x, q) \<in> partner_rel g"
        show "q \<in> set v'"
        proof (cases "x = this")
          case True
          with q ps(1) have "q \<in> set ps" by (simp add: partner_rel_def)
          with nc show ?thesis by (rule subsetD)
        next
          case False
          with x have "x \<in> set v' - set (visited @ [this])" by simp
          from nb [OF this q] show ?thesis .
        qed
      qed
      from 1 2 show "other \<notin> set v' - set visited
                \<and> (\<forall>x \<in> set v' - set visited. \<forall>q. (x, q) \<in> partner_rel g \<longrightarrow> q \<in> set v')"
        by (intro conjI)
    qed
    show ?thesis
      by (intro exI [of _ r] exI [of _ v'] conjI e a b d)
  qed
qed

lemma closed_unreachable:
  assumes "a \<in> S" and "b \<notin> S" and "\<forall>x \<in> S. \<forall>q. (x, q) \<in> R \<longrightarrow> q \<in> S"
  shows "(a, b) \<notin> R\<^sup>*"
proof
  assume "(a, b) \<in> R\<^sup>*"
  then have "a \<in> S \<longrightarrow> b \<in> S"
  proof (induction rule: rtrancl_induct)
    case base
    show ?case by simp
  next
    case (step y z)
    with assms(3) show ?case by blast
  qed
  with assms(1,2) show False by simp
qed

lemma relpow_two_colouring:
  assumes "\<forall>(p, q) \<in> R. c p \<noteq> (c q :: bool)"
  shows "(a, b) \<in> R ^^ k \<Longrightarrow> (c a = c b) = even k"
proof (induction k arbitrary: b)
  case 0
  then show ?case by simp
next
  case (Suc k)
  then obtain y where y: "(a, y) \<in> R ^^ k" "(y, b) \<in> R" by auto
  from assms y(2) have "c y \<noteq> c b" by auto
  with Suc.IH [OF y(1)] show ?case by auto
qed

text \<open>
  Claim C4. For two persons in a finite part of the store closed under \<open>getPartners\<close>,
  and fuel for its size, \<open>canPartnerWith\<close> returns: the result is true exactly when
  the genders are compatible (opposite, or one of them \<open>"U"\<close>) and the hop count of
  \<open>getStepsToNode\<close> is absent or odd. A hop count \<open>k\<close> is the length of a partner
  path between the two; it is absent exactly when there is no partner path. In
  particular two equal definite genders are rejected, and so is an even hop count; when
  the partner relation has a two-colouring (no odd cycle), every pair joined by a path of
  even length is rejected.
\<close>

theorem canPartnerWith_spec:
  assumes "finite U" and "this \<in> U"
    and "\<forall>p \<in> U. \<exists>ps. getPartners g p = Inr ps \<and> set ps \<subseteq> U"
    and "card U \<le> fuel"
  shows "\<exists>numSteps visited.
           getStepsToNode fuel g this otherNode [] = Some (Inr (numSteps, visited))
         \<and> (\<forall>k. numSteps = Some k \<longrightarrow> (this, otherNode) \<in> partner_rel g ^^ k)
         \<and> (numSteps = None \<longrightarrow> (this, otherNode) \<notin> (partner_rel g)\<^sup>*)
         \<and> canPartnerWith fuel g this otherNode =
             Some (Inr ((getOppositeGender g this = getGender g otherNode
                          \<or> getGender g this = ''U'' \<or> getGender g otherNode = ''U'')
                        \<and> (case numSteps of None \<Rightarrow> True | Some k \<Rightarrow> odd k)))
         \<and> (getGender g this = getGender g otherNode \<and> getGender g this \<in> {''M'', ''F''} \<longrightarrow>
               canPartnerWith fuel g this otherNode = Some (Inr False))
         \<and> (\<forall>k. numSteps = Some k \<and> even k \<longrightarrow>
               canPartnerWith fuel g this otherNode = Some (Inr False))
         \<and> (\<forall>c k. (\<forall>(p, q) \<in> partner_rel g. c p \<noteq> (c q :: bool))
                  \<and> (this, otherNode) \<in> partner_rel g ^^ k \<and> even k \<longrightarrow>
               canPartnerWith fuel g this otherNode = Some (Inr False))"
proof -
  from assms(1,2) have "card (U - {this}) < card U"
    by (intro psubset_card_mono) auto
  with assms(4) have c: "card (U - set [] - {this}) < fuel" by simp
  from getStepsToNode_post [OF assms(1) assms(3) assms(2) c, of otherNode] obtain r v' where
    s: "getStepsToNode fuel g this otherNode [] = Some (Inr (r, v'))" and
    m: "{this} \<subseteq> set v'" and
    f: "\<forall>k. r = Some k \<longrightarrow> (this, otherNode) \<in> partner_rel g ^^ k" and
    n: "r = None \<longrightarrow> otherNode \<notin> set v'
                \<and> (\<forall>x \<in> set v'. \<forall>q. (x, q) \<in> partner_rel g \<longrightarrow> q \<in> set v')"
    by auto
  have u: "r = None \<longrightarrow> (this, otherNode) \<notin> (partner_rel g)\<^sup>*"
  proof
    assume "r = None"
    with n m show "(this, otherNode) \<notin> (partner_rel g)\<^sup>*"
      using closed_unreachable [of this "set v'" otherNode "partner_rel g"] by blast
  qed
  have e: "canPartnerWith fuel g this otherNode =
             Some (Inr ((getOppositeGender g this = getGender g otherNode
                          \<or> getGender g this = ''U'' \<or> getGender g otherNode = ''U'')
                        \<and> (case r of None \<Rightarrow> True | Some k \<Rightarrow> odd k)))"
    using s by (simp add: canPartnerWith_def bindR_def Let_def odd_iff_mod_2_eq_one split: option.splits)
  have g1: "getGender g this = getGender g otherNode \<and> getGender g this \<in> {''M'', ''F''} \<longrightarrow>
               canPartnerWith fuel g this otherNode = Some (Inr False)"
    using e by (auto simp: getOppositeGender_def)
  have g2: "\<forall>k. r = Some k \<and> even k \<longrightarrow> canPartnerWith fuel g this otherNode = Some (Inr False)"
    using e by auto
  have g3: "\<forall>c k. (\<forall>(p, q) \<in> partner_rel g. c p \<noteq> (c q :: bool))
                  \<and> (this, otherNode) \<in> partner_rel g ^^ k \<and> even k \<longrightarrow>
               canPartnerWith fuel g this otherNode = Some (Inr False)"
  proof (intro allI impI)
    fix c :: "pref \<Rightarrow> bool" and k
    assume h: "(\<forall>(p, q) \<in> partner_rel g. c p \<noteq> c q)
                  \<and> (this, otherNode) \<in> partner_rel g ^^ k \<and> even k"
    then have col: "\<forall>(p, q) \<in> partner_rel g. c p \<noteq> c q"
      and path: "(this, otherNode) \<in> partner_rel g ^^ k" and ev: "even k"
      by simp_all
    from path have "(this, otherNode) \<in> (partner_rel g)\<^sup>*"
      by (rule relpow_imp_rtrancl)
    with u obtain k' where k': "r = Some k'" by (cases r) auto
    with f have "(this, otherNode) \<in> partner_rel g ^^ k'" by simp
    from relpow_two_colouring [OF col this] relpow_two_colouring [OF col path] ev
    have "even k'" by simp
    with g2 k' show "canPartnerWith fuel g this otherNode = Some (Inr False)" by simp
  qed
  show ?thesis
    by (intro exI [of _ r] exI [of _ v'] conjI s f u e g1 g2 g3)
qed


text \<open>
  Witness for C4: in \<open>graph_chain\<close> the woman (0) and the second partner (2) of her
  partner are two hops apart, and cannot be partners.
\<close>

theorem canPartnerWith_spec_witness:
  "finite {0, 1, 2 :: nat} \<and> (0 :: nat) \<in> {0, 1, 2} \<and> card {0, 1, 2 :: nat} \<le> 3
   \<and> getPartners graph_chain 0 = Inr [1] \<and> getPartners graph_chain 1 = Inr [0, 2]
   \<and> getPartners graph_chain 2 = Inr [1]
   \<and> getGender graph_chain 0 = ''F'' \<and> getGender graph_chain 2 = ''F''
   \<and> getStepsToNode 3 graph_chain 0 2 [] = Some (Inr (Some 2, [0, 1, 2]))
   \<and> (0, 2) \<in> partner_rel graph_chain ^^ 2
   \<and> canPartnerWith 3 graph_chain 0 2 = Some (Inr False)"
proof -
  have p: "getPartners graph_chain 0 = Inr [1]" "getPartners graph_chain 1 = Inr [0, 2]"
    "getPartners graph_chain 2 = Inr [1]"
    by code_simp+
  have gd: "getGender graph_chain 0 = ''F''" "getGender graph_chain 2 = ''F''"
    by code_simp+
  have s: "getStepsToNode 3 graph_chain 0 2 [] = Some (Inr (Some 2, [0, 1, 2]))"
    by code_simp
  have c: "\<forall>p \<in> {0, 1, 2 :: nat}. \<exists>ps. getPartners graph_chain p = Inr ps \<and> set ps \<subseteq> {0, 1, 2}"
    using p by simp
  have f: "finite {0, 1, 2 :: nat}" "(0 :: nat) \<in> {0, 1, 2}" "card {0, 1, 2 :: nat} \<le> 3"
    by simp_all
  from canPartnerWith_spec [OF f(1) f(2) c f(3), of 2] obtain numSteps visited where
    1: "getStepsToNode 3 graph_chain 0 2 [] = Some (Inr (numSteps, visited))" and
    2: "\<forall>k. numSteps = Some k \<longrightarrow> (0, 2) \<in> partner_rel graph_chain ^^ k" and
    3: "\<forall>k. numSteps = Some k \<and> even k \<longrightarrow> canPartnerWith 3 graph_chain 0 2 = Some (Inr False)"
    by blast
  from 1 s have n: "numSteps = Some 2" by simp
  from 2 n have r: "(0, 2) \<in> partner_rel graph_chain ^^ 2" by blast
  from 3 n have k: "canPartnerWith 3 graph_chain 0 2 = Some (Inr False)" by simp
  from f p gd s r k show ?thesis by (intro conjI)
qed

section \<open>Idempotence of addPartner\<close>

text \<open>
  \<open>getPartners\<close> and \<open>getPartnership\<close> of a person read its partnership list and
  the partner pairs of the partnerships in it, nothing else; \<open>setGender\<close> changes
  neither.
\<close>

lemma getPartnerOf_frame:
  assumes "map_option s_partners (pships g' s) = map_option s_partners (pships g s)"
  shows "getPartnerOf g' s p = getPartnerOf g s p"
  using assms
  by (cases "pships g s"; cases "pships g' s")
     (auto simp: getPartnerOf_def Partnership_getPartners_def bindE_def)

lemma getPartners_each_frame:
  assumes "\<forall>s \<in> set l. map_option s_partners (pships g' s) = map_option s_partners (pships g s)"
  shows "getPartners_each g' p l acc = getPartners_each g p l acc"
  using assms
proof (induction l arbitrary: acc)
  case Nil
  then show ?case by simp
next
  case (Cons s l)
  then have "getPartnerOf g' s p = getPartnerOf g s p"
    by (intro getPartnerOf_frame) simp
  with Cons show ?case by (simp split: sum.splits option.splits)
qed

lemma getPartners_frame:
  assumes "getPartnerships g' p = getPartnerships g p"
    and "\<forall>s \<in> set (getPartnerships g p). map_option s_partners (pships g' s) = map_option s_partners (pships g s)"
  shows "getPartners g' p = getPartners g p"
  using assms by (simp add: getPartners_def getPartners_each_frame)

lemma getPartnership_for_frame:
  assumes "\<forall>s \<in> set l. map_option s_partners (pships g' s) = map_option s_partners (pships g s)"
  shows "getPartnership_for g' p q l = getPartnership_for g p q l"
  using assms
proof (induction l)
  case Nil
  then show ?case by simp
next
  case (Cons s l)
  then have "getPartnerOf g' s p = getPartnerOf g s p"
    by (intro getPartnerOf_frame) simp
  with Cons show ?case by (simp split: sum.splits)
qed

lemma getPartners_each_append:
  "getPartners_each g p (l1 @ l2) acc =
     bindE (getPartners_each g p l1 acc) (\<lambda>ps. getPartners_each g p l2 ps)"
  by (induction l1 arbitrary: acc) (auto simp: bindE_def split: sum.splits option.splits)

lemma getPartners_each_acc_subset:
  "getPartners_each g p l acc = Inr ps \<Longrightarrow> set acc \<subseteq> set ps"
proof (induction l arbitrary: acc)
  case Nil
  then show ?case by simp
next
  case (Cons s l)
  then show ?case by (fastforce split: sum.splits option.splits)
qed

lemma getPartnership_for_skip:
  "getPartners_each g p l acc = Inr ps \<Longrightarrow> q \<notin> set ps \<Longrightarrow>
     getPartnership_for g p q (l @ l2) = getPartnership_for g p q l2"
proof (induction l arbitrary: acc)
  case Nil
  then show ?case by simp
next
  case (Cons s l)
  show ?case
  proof (cases "getPartnerOf g s p")
    case (Inl e)
    with Cons.prems show ?thesis by simp
  next
    case (Inr x)
    show ?thesis
    proof (cases x)
      case None
      with Inr Cons show ?thesis by simp
    next
      case (Some y)
      with Inr Cons.prems have r: "getPartners_each g p l (acc @ [y]) = Inr ps" by simp
      from getPartners_each_acc_subset [OF r] Cons.prems(2) have "y \<noteq> q" by auto
      with Cons.IH [OF r Cons.prems(2)] Inr Some show ?thesis by simp
    qed
  qed
qed

lemma setGender_frame:
  "(\<forall>g this gender visited g' v'.
      setGender fuel g this gender visited = Some (Inr (g', v')) \<longrightarrow>
        pships g' = pships g \<and> nextPship g' = nextPship g
        \<and> (\<forall>q. p_partnerships (persons g' q) = p_partnerships (persons g q)))
   \<and> (\<forall>g me ps visited g' v'.
      setGender_each fuel g me ps visited = Some (Inr (g', v')) \<longrightarrow>
        pships g' = pships g \<and> nextPship g' = nextPship g
        \<and> (\<forall>q. p_partnerships (persons g' q) = p_partnerships (persons g q)))"
proof (induction fuel)
  case 0
  have "\<forall>g me ps visited g' v'.
      setGender_each 0 g me ps visited = Some (Inr (g', v')) \<longrightarrow>
        pships g' = pships g \<and> nextPship g' = nextPship g
        \<and> (\<forall>q. p_partnerships (persons g' q) = p_partnerships (persons g q))"
  proof (intro allI)
    fix g me ps visited g' v'
    show "setGender_each 0 g me ps visited = Some (Inr (g', v')) \<longrightarrow>
        pships g' = pships g \<and> nextPship g' = nextPship g
        \<and> (\<forall>q. p_partnerships (persons g' q) = p_partnerships (persons g q))"
      by (induction ps arbitrary: g visited) (auto simp: bindR_def)
  qed
  then show ?case by simp
next
  case (Suc fuel)
  then have IHe: "\<And>g me ps visited g' v'.
      setGender_each fuel g me ps visited = Some (Inr (g', v')) \<Longrightarrow>
        pships g' = pships g \<and> nextPship g' = nextPship g
        \<and> (\<forall>q. p_partnerships (persons g' q) = p_partnerships (persons g q))"
    by blast
  have A: "\<And>g this gender visited g' v'.
      setGender (Suc fuel) g this gender visited = Some (Inr (g', v')) \<Longrightarrow>
        pships g' = pships g \<and> nextPship g' = nextPship g
        \<and> (\<forall>q. p_partnerships (persons g' q) = p_partnerships (persons g q))"
  proof -
    fix g this gender visited g' v'
    assume a: "setGender (Suc fuel) g this gender visited = Some (Inr (g', v'))"
    show "pships g' = pships g \<and> nextPship g' = nextPship g
        \<and> (\<forall>q. p_partnerships (persons g' q) = p_partnerships (persons g q))"
    proof (cases "getPartners g this")
      case (Inl e)
      with a show ?thesis by (simp add: Let_def bindR_def liftE_def)
    next
      case (Inr partners)
      show ?thesis
      proof (cases "length partners = 0")
        case True
        with a Inr show ?thesis
          by (auto simp: Let_def bindR_def liftE_def set_gender_def)
      next
        case False
        show ?thesis
        proof (cases "getGender g this = ''U''")
          case u: False
          with a Inr False show ?thesis by (auto simp: Let_def bindR_def liftE_def)
        next
          case u: True
          let ?g1 = "set_gender g this (parseGender gender)"
          from a Inr False u obtain partners1 where
            "setGender_each fuel ?g1 this partners1 (visited @ [this]) = Some (Inr (g', v'))"
            by (auto simp: Let_def bindR_def liftE_def split: sum.splits)
          from IHe [OF this] show ?thesis by (simp add: set_gender_def)
        qed
      qed
    qed
  qed
  have B: "\<And>g me ps visited g' v'.
      setGender_each (Suc fuel) g me ps visited = Some (Inr (g', v')) \<Longrightarrow>
        pships g' = pships g \<and> nextPship g' = nextPship g
        \<and> (\<forall>q. p_partnerships (persons g' q) = p_partnerships (persons g q))"
  proof -
    fix g me ps visited g' v'
    show "setGender_each (Suc fuel) g me ps visited = Some (Inr (g', v')) \<Longrightarrow>
        pships g' = pships g \<and> nextPship g' = nextPship g
        \<and> (\<forall>q. p_partnerships (persons g' q) = p_partnerships (persons g q))"
    proof (induction ps arbitrary: g visited)
      case Nil
      then show ?case by simp
    next
      case (Cons p ps)
      show ?case
      proof (cases "p \<notin> set visited")
        case False
        with Cons show ?thesis by simp
      next
        case True
        with Cons.prems obtain g1 v1 where
          1: "setGender (Suc fuel) g p (getOppositeGender g me) visited = Some (Inr (g1, v1))" and
          2: "setGender_each (Suc fuel) g1 me ps v1 = Some (Inr (g', v'))"
          by (auto simp: bindR_def split: option.splits sum.splits)
        from A [OF 1] Cons.IH [OF 2] show ?thesis by simp
      qed
    qed
  qed
  from A B show ?case by blast
qed


lemma addPartnership_frame:
  assumes "addPartnership g p s = Inr g'"
  shows "pships g' = pships g \<and> nextPship g' = nextPship g
         \<and> (\<forall>q. q \<noteq> p \<longrightarrow> persons g' q = persons g q)
         \<and> (getPartnerships g' p = getPartnerships g p \<or> getPartnerships g' p = getPartnerships g p @ [s])"
  using assms
  by (auto simp: addPartnership_def bindE_Inr_iff getPartnerships_def split: if_splits)

lemma addPartnership_push:
  assumes "getPartners g p = Inr ps" and "getPartnerOf g s p = Inr (Some q)" and "q \<notin> set ps"
  shows "\<exists>g'. addPartnership g p s = Inr g' \<and> getPartnerships g' p = getPartnerships g p @ [s]"
  using assms by (simp add: addPartnership_def bindE_def getPartnerships_def)

lemma AbstractNode_initialize_frame:
  assumes "AbstractNode_initialize g this x y ident = Inr g'"
  shows "persons g' = persons g \<and> nextPship g' = nextPship g
         \<and> (\<forall>s. map_option s_partners (pships g' s) = map_option s_partners (pships g s))"
  using assms
  by (auto simp: AbstractNode_initialize_def generateID_def split: option.splits if_splits)

lemma Partnership_initialize_structure:
  assumes i: "Partnership_initialize g x y P Q ident = Inr (g1, r)"
    and nph: "getType g P \<noteq> ''ph'' \<or> getType g Q \<noteq> ''ph''"
    and ne: "P \<noteq> Q"
    and ps: "getPartners g P = Inr ps" and nq: "Q \<notin> set ps"
    and fresh: "nextPship g \<notin> set (getPartnerships g P)"
  shows "r = nextPship g \<and> getPartnerships g1 P = getPartnerships g P @ [r]
         \<and> (\<forall>s. map_option s_partners (pships g1 s) =
                  (if s = r then Some (P, Q) else map_option s_partners (pships g s)))"
proof -
  define ga where "ga = g\<lparr>nextPship := Suc (nextPship g),
                      pships := (pships g)(nextPship g := Some
                        \<lparr>s_type = ''partnership'', s_partners = (P, Q),
                         s_children = ([], []), s_graphics = None, s_id = None\<rparr>)\<rparr>"
  from i nph have "bindE (addPartnership ga P (nextPship g)) (\<lambda>g2.
               bindE (addPartnership g2 Q (nextPship g)) (\<lambda>g3.
               bindE (AbstractNode_initialize g3 (nextPship g) x y ident) (\<lambda>g4.
                 Inr (g4, nextPship g)))) = Inr (g1, r)"
    by (auto simp: Partnership_initialize_def Let_def getType_def ga_def)
  then obtain g2 g3 where
    r: "r = nextPship g" and
    s2: "addPartnership ga P (nextPship g) = Inr g2" and
    s3: "addPartnership g2 Q (nextPship g) = Inr g3" and
    s4: "AbstractNode_initialize g3 (nextPship g) x y ident = Inr g1"
    by (auto simp: bindE_Inr_iff)
  have pa: "\<forall>s. map_option s_partners (pships ga s) =
                  (if s = r then Some (P, Q) else map_option s_partners (pships g s))"
    by (simp add: ga_def r)
  have la: "getPartnerships ga P = getPartnerships g P"
    by (simp add: ga_def getPartnerships_def)
  from pa fresh r have "\<forall>s \<in> set (getPartnerships g P).
      map_option s_partners (pships ga s) = map_option s_partners (pships g s)"
    by auto
  from getPartners_frame [OF la this] ps have psa: "getPartners ga P = Inr ps"
    by simp
  have oa: "getPartnerOf ga (nextPship g) P = Inr (Some Q)"
    by (simp add: getPartnerOf_def Partnership_getPartners_def bindE_def ga_def)
  from addPartnership_push [OF psa oa nq] s2 have l2: "getPartnerships g2 P = getPartnerships ga P @ [nextPship g]"
    by simp
  from addPartnership_frame [OF s2] have p2: "pships g2 = pships ga" by simp
  from addPartnership_frame [OF s3] ne have l3: "getPartnerships g3 P = getPartnerships g2 P"
    and p3: "pships g3 = pships g2"
    by (simp_all add: getPartnerships_def)
  from AbstractNode_initialize_frame [OF s4] have l4: "getPartnerships g1 P = getPartnerships g3 P"
    and p4: "\<forall>s. map_option s_partners (pships g1 s) = map_option s_partners (pships g3 s)"
    by (simp_all add: getPartnerships_def)
  from l2 l3 l4 la r have "getPartnerships g1 P = getPartnerships g P @ [r]" by simp
  moreover from p2 p3 p4 pa have "\<forall>s. map_option s_partners (pships g1 s) =
                  (if s = r then Some (P, Q) else map_option s_partners (pships g s))"
    by simp
  ultimately show ?thesis using r by simp
qed

lemma partnered_after:
  assumes l: "getPartnerships g' P = getPartnerships g P @ [r]"
    and p: "\<forall>s. map_option s_partners (pships g' s) =
                  (if s = r then Some (P, Q) else map_option s_partners (pships g s))"
    and ps: "getPartners g P = Inr ps" and nq: "Q \<notin> set ps"
    and fresh: "r \<notin> set (getPartnerships g P)"
  shows "getPartners g' P = Inr (ps @ [Q]) \<and> getPartnership g' P Q = Inr (Some r)"
proof -
  from p fresh have fr: "\<forall>s \<in> set (getPartnerships g P).
      map_option s_partners (pships g' s) = map_option s_partners (pships g s)"
    by auto
  from getPartners_each_frame [OF fr, of P "[]"] ps
  have old: "getPartners_each g' P (getPartnerships g P) [] = Inr ps"
    by (simp add: getPartners_def)
  from p have "map_option s_partners (pships g' r) = Some (P, Q)" by simp
  then have o: "getPartnerOf g' r P = Inr (Some Q)"
    by (auto simp: getPartnerOf_def Partnership_getPartners_def bindE_def)
  from old o l have 1: "getPartners g' P = Inr (ps @ [Q])"
    by (simp add: getPartners_def getPartners_each_append bindE_def)
  from getPartnership_for_skip [OF old nq, of "[r]"] o l
  have 2: "getPartnership g' P Q = Inr (Some r)"
    by (simp add: getPartnership_def)
  from 1 2 show ?thesis by simp
qed

text \<open>
  Claim C6, as amended. When \<open>P.addPartner(Q)\<close> returns a partnership and \<open>P\<close> and
  \<open>Q\<close> are not both placeholders, a second call in the resulting store returns the same
  partnership and leaves the store as it is, so no partnership is created. The last
  hypothesis says that the object \<open>new\<close> is about to create is not already in the
  partnership list of \<open>P\<close>.
\<close>

theorem addPartner_idempotent:
  assumes a: "addPartner fuel g P Q = Some (Inr (g', Some r))"
    and nph: "getType g P \<noteq> ''ph'' \<or> getType g Q \<noteq> ''ph''"
    and fresh: "nextPship g \<notin> set (getPartnerships g P)"
  shows "addPartner fuel' g' P Q = Some (Inr (g', Some r))"
proof -
  from a obtain ps where ps: "getPartners g P = Inr ps"
    by (cases "getPartners g P") (simp_all add: addPartner_def bindR_def liftE_def)
  show ?thesis
  proof (cases "Q \<in> set ps")
    case True
    with a ps have "g' = g" and "getPartnership g P Q = Inr (Some r)"
      by (auto simp: addPartner_def bindR_def liftE_def split: sum.splits)
    with ps True show ?thesis
      by (simp add: addPartner_def bindR_def liftE_def)
  next
    case False
    define x where "x = (if getX g Q > getX g P then \<bar>getX g Q - getX g P\<bar> / 2 + getX g P
                         else \<bar>getX g Q - getX g P\<bar> / 2 + getX g Q)"
    define y where "y = (if getY g Q > getY g P then \<bar>getY g Q - getY g P\<bar> / 2 + getY g P
                         else \<bar>getY g Q - getY g P\<bar> / 2 + getY g Q)"
    define cont :: "graph \<times> sref \<Rightarrow> (error + (graph \<times> sref option)) option"
      where "cont = (\<lambda>(g1, partnership).
                    if getGender g1 P = ''U'' \<and> getGender g1 Q \<noteq> ''U''
                    then bindR (setGender fuel g1 P (getOppositeGender g1 Q) []) (\<lambda>r.
                           Some (Inr (fst r, Some partnership)))
                    else if getGender g1 P \<noteq> ''U'' \<and> getGender g1 Q = ''U''
                    then bindR (setGender fuel g1 Q (getOppositeGender g1 P) []) (\<lambda>r.
                           Some (Inr (fst r, Some partnership)))
                    else Some (Inr (g1, Some partnership)))"
    have unf: "addPartner fuel g P Q =
        bindR (canPartnerWith fuel g P Q) (\<lambda>ok.
          if ok then bindR (liftE (Partnership_initialize g x y P Q None)) cont
          else Some (Inr (g, None)))"
      unfolding addPartner_def Let_def x_def y_def cont_def
      using ps False by (simp add: bindR_def liftE_def)
    from a unf have ok: "canPartnerWith fuel g P Q = Some (Inr True)"
      by (cases "canPartnerWith fuel g P Q") (auto simp: bindR_def split: sum.splits if_splits)
    have ne: "P \<noteq> Q"
    proof
      assume "P = Q"
      with ok show False
        by (cases fuel) (simp_all add: canPartnerWith_def bindR_def Let_def)
    qed
    from a unf ok have c1: "bindR (liftE (Partnership_initialize g x y P Q None)) cont = Some (Inr (g', Some r))"
      by (simp add: bindR_def)
    then obtain g1 r1 where i1: "Partnership_initialize g x y P Q None = Inr (g1, r1)"
      by (cases "Partnership_initialize g x y P Q None") (auto simp: bindR_def liftE_def)
    with c1 have c2: "cont (g1, r1) = Some (Inr (g', Some r))"
      by (simp add: bindR_def liftE_def)
    have rr: "r1 = r \<and> (g' = g1 \<or> (\<exists>p gd v'. setGender fuel g1 p gd [] = Some (Inr (g', v'))))"
    proof (cases "getGender g1 P = ''U'' \<and> getGender g1 Q \<noteq> ''U''")
      case True
      with c2 have "bindR (setGender fuel g1 P (getOppositeGender g1 Q) []) (\<lambda>r.
                           Some (Inr (fst r, Some r1))) = Some (Inr (g', Some r))"
        by (simp add: cont_def)
      then obtain z where "setGender fuel g1 P (getOppositeGender g1 Q) [] = Some (Inr z)"
        and "fst z = g'" and "r1 = r"
        by (auto simp: bindR_Some_iff)
      then show ?thesis by (cases z) auto
    next
      case nt: False
      show ?thesis
      proof (cases "getGender g1 P \<noteq> ''U'' \<and> getGender g1 Q = ''U''")
        case True
        with c2 nt have "bindR (setGender fuel g1 Q (getOppositeGender g1 P) []) (\<lambda>r.
                           Some (Inr (fst r, Some r1))) = Some (Inr (g', Some r))"
          by (simp add: cont_def)
        then obtain z where "setGender fuel g1 Q (getOppositeGender g1 P) [] = Some (Inr z)"
          and "fst z = g'" and "r1 = r"
          by (auto simp: bindR_Some_iff)
        then show ?thesis by (cases z) auto
      next
        case False
        with c2 nt show ?thesis by (auto simp: cont_def)
      qed
    qed
    from i1 rr have i: "Partnership_initialize g x y P Q None = Inr (g1, r)" by simp
    from rr have sg: "g' = g1 \<or> (\<exists>p gd v'. setGender fuel g1 p gd [] = Some (Inr (g', v')))"
      by simp
    from Partnership_initialize_structure [OF i nph ne ps False fresh]
    have r: "r = nextPship g" and l1: "getPartnerships g1 P = getPartnerships g P @ [r]"
      and p1: "\<forall>s. map_option s_partners (pships g1 s) =
                  (if s = r then Some (P, Q) else map_option s_partners (pships g s))"
      by simp_all
    from sg have "pships g' = pships g1 \<and> (\<forall>q. p_partnerships (persons g' q) = p_partnerships (persons g1 q))"
      using setGender_frame [of fuel] by blast
    with l1 p1 have l: "getPartnerships g' P = getPartnerships g P @ [r]"
      and p: "\<forall>s. map_option s_partners (pships g' s) =
                  (if s = r then Some (P, Q) else map_option s_partners (pships g s))"
      by (simp_all add: getPartnerships_def)
    from fresh r have "r \<notin> set (getPartnerships g P)" by simp
    from partnered_after [OF l p ps False this]
    show ?thesis
      by (simp add: addPartner_def bindR_def liftE_def)
  qed
qed


text \<open>Witness for C6: the woman takes the man as partner, twice.\<close>

theorem addPartner_idempotent_witness:
  "addPartner 3 graph_abc 0 1 = Some (Inr (graph_couple, Some 0))
   \<and> getType graph_abc 0 = ''pn'' \<and> getType graph_abc 1 = ''pn''
   \<and> nextPship graph_abc \<notin> set (getPartnerships graph_abc 0)
   \<and> addPartner 3 graph_couple 0 1 = Some (Inr (graph_couple, Some 0))"
proof -
  have "case addPartner 3 graph_abc 0 1 of Some (Inr (g, r)) \<Rightarrow> r = Some 0 | _ \<Rightarrow> False"
    by code_simp
  then obtain g1 where g1: "addPartner 3 graph_abc 0 1 = Some (Inr (g1, Some 0))"
    by (auto split: option.splits sum.splits)
  then have "g1 = graph_couple" by (simp add: graph_couple_def)
  with g1 have a: "addPartner 3 graph_abc 0 1 = Some (Inr (graph_couple, Some 0))" by simp
  have t: "getType graph_abc 0 = ''pn''" "getType graph_abc 1 = ''pn''" by code_simp+
  then have nph: "getType graph_abc 0 \<noteq> ''ph'' \<or> getType graph_abc 1 \<noteq> ''ph''" by simp
  have f: "nextPship graph_abc \<notin> set (getPartnerships graph_abc 0)" by code_simp
  from addPartner_idempotent [OF a nph f, of 3] a t f show ?thesis by simp
qed

text \<open>
  Counterexample to C6 as stated, in the store \<open>graph_ph_ph\<close>: two placeholders of
  unknown gender without partners. Here \<open>canPartnerWith\<close> holds, so \<open>addPartner\<close>
  evaluates \<open>new Partnership(...)\<close>; for two placeholders the constructor does nothing,
  and \<open>addPartner\<close> returns the object all the same (reference 0, without fields, in no
  partnership list). The second call does not find it and returns another object
  (reference 1).
\<close>

theorem addPartner_two_placeholders:
  "getType graph_ph_ph 0 = ''ph'' \<and> getType graph_ph_ph 1 = ''ph''
   \<and> (case addPartner 3 graph_ph_ph 0 1 of
         Some (Inr (g1, r1)) \<Rightarrow>
           r1 = Some 0 \<and> pships g1 0 = None \<and> getPartnerships g1 0 = []
           \<and> (case addPartner 3 g1 0 1 of
                 Some (Inr (g2, r2)) \<Rightarrow> r2 = Some 1 \<and> pships g2 1 = None \<and> nextPship g2 = 2
               | _ \<Rightarrow> False)
       | _ \<Rightarrow> False)"
  by code_simp

section \<open>Removing a partnership\<close>





























end
